theory Spec2Isabelle
  imports Main "HOL-Library.Sublist" "HOL-Library.Multiset"
begin

section \<open>license-checker: the checker package\<close>

text \<open>
  A shallow embedding of \<^verbatim>\<open>checker/checker.go\<close>. A Go \<^verbatim>\<open>error\<close> is modelled by its
  message text (what \<^verbatim>\<open>Error()\<close> returns), a \<^verbatim>\<open>nil\<close> error by \<open>None\<close>, and a pair
  \<^verbatim>\<open>(value, error)\<close> by a sum with the error on the left. Everything the package takes
  from outside (the standard library's path and JSON functions, the licensecheck
  library, the file system, the goroutine scheduler) is a field of the record \<open>env\<close>;
  what the program prints and which files it reads is recorded in the record \<open>world\<close>.
\<close>

subsection \<open>Errors and text\<close>

type_synonym error = string

definition quote :: string where
  "quote = [CHR 0x27]"

definition newline :: string where
  "newline = [CHR 0x0A]"

text \<open>The decimal text of a number, as \<^verbatim>\<open>%d\<close> prints it.\<close>

fun itoa :: "nat \<Rightarrow> string" where
  "itoa n =
     (if n < 10 then [''0123456789'' ! n]
      else itoa (n div 10) @ [''0123456789'' ! (n mod 10)])"

declare itoa.simps [simp del]

subsection \<open>The match package\<close>

type_synonym Test = "string \<Rightarrow> bool"

text \<open>
  Modelled from the spec: \<^verbatim>\<open>match.New\<close> (the package \<^verbatim>\<open>../match\<close> that checker.go imports
  is not among the sources). The specification's data model gives the pattern language:
  \<^verbatim>\<open>?\<close> matches exactly one character that is not a path separator, \<^verbatim>\<open>*\<close> matches zero
  or more characters none of which is a path separator, \<^verbatim>\<open>**\<close> matches zero or more
  characters including separators, every other character matches itself, and a pattern
  is matched against the whole path. The comment on \<^verbatim>\<open>Config.Paths\<close> in checker.go
  lists the same three wildcards. The pattern is scanned left to right into tokens and
  matched by backtracking.
\<close>

datatype token = Lit char | AnyChar | Star | StarStar

fun scan :: "string \<Rightarrow> token list" where
  "scan [] = []"
| "scan (c # cs) =
     (if c = CHR ''*'' then
        (case cs of
           d # ds \<Rightarrow> (if d = CHR ''*'' then StarStar # scan ds else Star # scan cs)
         | [] \<Rightarrow> [Star])
      else if c = CHR ''?'' then AnyChar # scan cs
      else Lit c # scan cs)"

fun matches :: "token list \<Rightarrow> string \<Rightarrow> bool" where
  "matches [] s = (s = [])"
| "matches (Lit c # ts) [] = False"
| "matches (Lit c # ts) (x # xs) = (x = c \<and> matches ts xs)"
| "matches (AnyChar # ts) [] = False"
| "matches (AnyChar # ts) (x # xs) = (x \<noteq> CHR ''/'' \<and> matches ts xs)"
| "matches (Star # ts) [] = matches ts []"
| "matches (Star # ts) (x # xs) =
     (matches ts (x # xs) \<or> (x \<noteq> CHR ''/'' \<and> matches (Star # ts) xs))"
| "matches (StarStar # ts) [] = matches ts []"
| "matches (StarStar # ts) (x # xs) =
     (matches ts (x # xs) \<or> matches (StarStar # ts) xs)"

definition match_New :: "string \<Rightarrow> error + Test" where
  "match_New pattern = Inr (matches (scan pattern))"

subsection \<open>Search rules\<close>

text \<open>The struct \<^verbatim>\<open>parsed\<close> of \<^verbatim>\<open>UnmarshalJSON\<close>: one entry of the \<^verbatim>\<open>paths\<close> array.\<close>

record parsed =
  Include :: "string list"
  Exclude :: "string list"

text \<open>\<^verbatim>\<open>type rule func(path string, cond bool) bool\<close>\<close>

type_synonym rule = "string \<Rightarrow> bool \<Rightarrow> bool"

type_synonym searchRules = "rule list"

record Config =
  Paths :: searchRules
  Licenses :: "string list"

text \<open>The decoded form of one configuration object before \<^verbatim>\<open>UnmarshalJSON\<close> has run on
  its \<^verbatim>\<open>paths\<close> value: the JSON text of that value when the key is present, and the
  license list.\<close>

record raw_config =
  rawPaths :: "string option"
  rawLicenses :: "string list"

text \<open>The tree below the project root as \<^verbatim>\<open>filepath.Walk\<close> finds it: a file, or a
  directory with its entries in the order of the listing. Every directory can be listed.\<close>

datatype node = File | Dir "(string \<times> node) list"

text \<open>
  What the package is given from outside:
  \<^item> \<open>filepath_Abs\<close>, \<open>filepath_Rel\<close>: the functions of \<^verbatim>\<open>path/filepath\<close>;
  \<^item> \<open>New\<close>: \<^verbatim>\<open>match.New\<close>, which compiles a pattern or rejects it;
  \<^item> \<open>json_parsed\<close>, \<open>json_Config\<close>, \<open>json_Configs\<close>: the JSON decoder on the text of a
    \<^verbatim>\<open>paths\<close> value, of one configuration object and of an array of them;
  \<^item> \<open>contents\<close>: what reading the file at a path gives;
  \<^item> \<open>licensecheck_Scan\<close>: the \<^verbatim>\<open>ID\<close>s of the matches \<^verbatim>\<open>licensecheck.Scan\<close> finds, in order;
  \<^item> \<open>tree\<close>: the tree at the project root;
  \<^item> \<open>completion\<close>: the order in which the goroutines started for a list of files
    finish, by index.
\<close>

record env =
  filepath_Abs :: "string \<Rightarrow> error + string"
  filepath_Rel :: "string \<Rightarrow> string \<Rightarrow> error + string"
  New :: "string \<Rightarrow> error + Test"
  json_parsed :: "string \<Rightarrow> error + parsed list"
  json_Config :: "string \<Rightarrow> error + raw_config"
  json_Configs :: "string \<Rightarrow> error + raw_config list"
  contents :: "string \<Rightarrow> error + string"
  licensecheck_Scan :: "string \<Rightarrow> string list"
  tree :: node
  completion :: "string list \<Rightarrow> nat list"

record world =
  stdout :: "string list"
  reads :: "string list"

text \<open>The loop that compiles the patterns of one entry (\<^verbatim>\<open>tests[i] = test\<close>), returning
  at the first pattern \<^verbatim>\<open>match.New\<close> rejects.\<close>

fun newTests :: "(string \<Rightarrow> error + Test) \<Rightarrow> string list \<Rightarrow> error + Test list" where
  "newTests mnew [] = Inr []"
| "newTests mnew (pattern # patterns) =
     (case mnew pattern of
        Inl err \<Rightarrow> Inl err
      | Inr test \<Rightarrow>
          (case newTests mnew patterns of
             Inl err \<Rightarrow> Inl err
           | Inr tests \<Rightarrow> Inr (test # tests)))"

text \<open>The two closures appended to the rule list.\<close>

fun includeRule :: "Test list \<Rightarrow> rule" where
  "includeRule [] path cond = cond"
| "includeRule (test # tests) path cond = (if test path then True else includeRule tests path cond)"

fun excludeRule :: "Test list \<Rightarrow> rule" where
  "excludeRule [] path cond = cond"
| "excludeRule (test # tests) path cond = (if test path then False else excludeRule tests path cond)"

text \<open>The loop over the parsed entries; \<open>l\<close> is the rule list built so far.\<close>

fun unmarshalRules :: "(string \<Rightarrow> error + Test) \<Rightarrow> parsed list \<Rightarrow> searchRules \<Rightarrow> error + searchRules" where
  "unmarshalRules mnew [] l = Inr l"
| "unmarshalRules mnew (r # p) l =
     (if length (Include r) > 0 \<and> length (Exclude r) > 0 then
        Inl ''Rule cannot contain both include and exclude''
      else if length (Include r) > 0 then
        (case newTests mnew (Include r) of
           Inl err \<Rightarrow> Inl err
         | Inr tests \<Rightarrow> unmarshalRules mnew p (l @ [includeRule tests]))
      else if length (Exclude r) > 0 then
        (case newTests mnew (Exclude r) of
           Inl err \<Rightarrow> Inl err
         | Inr tests \<Rightarrow> unmarshalRules mnew p (l @ [excludeRule tests]))
      else unmarshalRules mnew p l)"

definition UnmarshalJSON :: "env \<Rightarrow> string \<Rightarrow> error + searchRules" where
  "UnmarshalJSON e body =
     (case json_parsed e body of
        Inl err \<Rightarrow> Inl err
      | Inr p \<Rightarrow> unmarshalRules (New e) p [])"

subsection \<open>shouldExamine and allowsLicense\<close>

text \<open>\<^verbatim>\<open>filepath.ToSlash\<close> where the separator is \<^verbatim>\<open>/\<close>: the path itself.\<close>

definition filepath_ToSlash :: "string \<Rightarrow> string" where
  "filepath_ToSlash path = path"

text \<open>The loop \<^verbatim>\<open>for _, rule := range c.Paths { res = rule(relPath, res) }\<close>.\<close>

fun applyRules :: "searchRules \<Rightarrow> string \<Rightarrow> bool \<Rightarrow> bool" where
  "applyRules [] relPath res = res"
| "applyRules (r # rules) relPath res = applyRules rules relPath (r relPath res)"

definition shouldExamine :: "env \<Rightarrow> Config \<Rightarrow> string \<Rightarrow> string \<Rightarrow> bool" where
  "shouldExamine e c root absPath =
     (case filepath_Rel e (filepath_ToSlash root) (filepath_ToSlash absPath) of
        Inl err \<Rightarrow> False
      | Inr relPath \<Rightarrow> applyRules (Paths c) relPath True)"

fun allowsLoop :: "string list \<Rightarrow> string \<Rightarrow> bool" where
  "allowsLoop [] name = False"
| "allowsLoop (l # ls) name = (if l = name then True else allowsLoop ls name)"

definition allowsLicense :: "Config \<Rightarrow> string \<Rightarrow> bool" where
  "allowsLicense c name = allowsLoop (Licenses c) name"

subsection \<open>Walking the tree\<close>

definition ConfigFileName :: string where
  "ConfigFileName = ''license-checker.cfg''"

text \<open>\<^verbatim>\<open>filepath.Join\<close> of a clean path and a name below it: the two joined by one
  separator (the root directory \<^verbatim>\<open>/\<close> already ends in it).\<close>

definition filepath_Join :: "string \<Rightarrow> string \<Rightarrow> string" where
  "filepath_Join dir name = (if dir = ''/'' then dir @ name else dir @ ''/'' @ name)"

text \<open>What a \<^verbatim>\<open>filepath.WalkFunc\<close> returns: \<^verbatim>\<open>nil\<close>, \<^verbatim>\<open>filepath.SkipDir\<close> or another error.\<close>

datatype walk_ret = Nil | SkipDir | Fail error

text \<open>
  \<^verbatim>\<open>filepath.Walk\<close> over a readable tree, as the standard library documents it: the
  function is called on every entry, a directory before its entries, the entries in the
  order of the listing (sorted by name). An error the function returns stops the walk and
  is returned; \<^verbatim>\<open>SkipDir\<close> returned on a directory skips that directory's entries, and
  \<^verbatim>\<open>SkipDir\<close> returned on a file skips the remaining entries of the directory holding it.
  The function's captured variables are the state \<open>s\<close>.
\<close>

fun isDir :: "node \<Rightarrow> bool" where
  "isDir File = False"
| "isDir (Dir entries) = True"

fun walk :: "(string \<Rightarrow> bool \<Rightarrow> 's \<Rightarrow> walk_ret \<times> 's) \<Rightarrow> string \<Rightarrow> node \<Rightarrow> 's \<Rightarrow> walk_ret \<times> 's"
  and walkNames :: "(string \<Rightarrow> bool \<Rightarrow> 's \<Rightarrow> walk_ret \<times> 's) \<Rightarrow> string \<Rightarrow> (string \<times> node) list \<Rightarrow> 's \<Rightarrow> walk_ret \<times> 's" where
  "walk walkFn path File s = walkFn path False s"
| "walk walkFn path (Dir entries) s =
     (case walkFn path True s of
        (Nil, s') \<Rightarrow> walkNames walkFn path entries s'
      | (err1, s') \<Rightarrow> (err1, s'))"
| "walkNames walkFn path [] s = (Nil, s)"
| "walkNames walkFn path ((name, n) # entries) s =
     (case walk walkFn (filepath_Join path name) n s of
        (Nil, s') \<Rightarrow> walkNames walkFn path entries s'
      | (SkipDir, s') \<Rightarrow> (if isDir n then walkNames walkFn path entries s' else (SkipDir, s'))
      | (Fail err, s') \<Rightarrow> (Fail err, s'))"

definition filepath_Walk :: "env \<Rightarrow> string \<Rightarrow> (string \<Rightarrow> bool \<Rightarrow> 's \<Rightarrow> walk_ret \<times> 's) \<Rightarrow> 's \<Rightarrow> error option \<times> 's" where
  "filepath_Walk e root walkFn s =
     (case walk walkFn root (tree e) s of
        (Nil, s') \<Rightarrow> (None, s')
      | (SkipDir, s') \<Rightarrow> (None, s')
      | (Fail err, s') \<Rightarrow> (Some err, s'))"

text \<open>The function literal \<^verbatim>\<open>gatherFiles\<close> passes to \<^verbatim>\<open>filepath.Walk\<close>; the slice \<^verbatim>\<open>files\<close>
  it appends to is the state.\<close>

definition gatherFn :: "env \<Rightarrow> string \<Rightarrow> Config \<Rightarrow> string \<Rightarrow> bool \<Rightarrow> string list \<Rightarrow> walk_ret \<times> string list" where
  "gatherFn e root cfg path info_IsDir files =
     (let rel = (case filepath_Rel e root path of Inl err \<Rightarrow> path | Inr rel \<Rightarrow> rel) in
      if rel = ''.git'' then (SkipDir, files)
      else if rel = ConfigFileName then (Nil, files)
      else if \<not> shouldExamine e cfg root path then (Nil, files)
      else if \<not> info_IsDir then (Nil, files @ [rel])
      else (Nil, files))"

definition gatherFiles :: "env \<Rightarrow> string \<Rightarrow> Config \<Rightarrow> error + string list" where
  "gatherFiles e root cfg =
     (case filepath_Walk e root (gatherFn e root cfg) [] of
        (Some err, files) \<Rightarrow> Inl err
      | (None, files) \<Rightarrow> Inr files)"

subsection \<open>Examining files\<close>

definition Printf :: "string \<Rightarrow> world \<Rightarrow> world" where
  "Printf line w = w\<lparr>stdout := stdout w @ [line]\<rparr>"

definition ioutil_ReadFile :: "env \<Rightarrow> string \<Rightarrow> world \<Rightarrow> (error + string) \<times> world" where
  "ioutil_ReadFile e path w = (contents e path, w\<lparr>reads := reads w @ [path]\<rparr>)"

text \<open>The loop over \<^verbatim>\<open>cov.Match\<close>; the list holds the \<^verbatim>\<open>ID\<close> of each match.\<close>

fun examineMatches :: "Config \<Rightarrow> string \<Rightarrow> string list \<Rightarrow> error option" where
  "examineMatches cfg path [] = None"
| "examineMatches cfg path (match_ID # ms) =
     (if \<not> allowsLicense cfg match_ID then
        Some (path @ '' uses unsupported license '' @ quote @ match_ID @ quote)
      else examineMatches cfg path ms)"

definition examine :: "env \<Rightarrow> string \<Rightarrow> string \<Rightarrow> Config \<Rightarrow> world \<Rightarrow> error option \<times> world" where
  "examine e root path cfg w =
     (case ioutil_ReadFile e (filepath_Join root path) w of
        (Inl err, w') \<Rightarrow> (Some (''Failed to read file '' @ quote @ path @ quote @ '': '' @ err), w')
      | (Inr body, w') \<Rightarrow>
          (let cov_Match = licensecheck_Scan e body in
           if length cov_Match = 0 then (Some (path @ '' has no license''), w')
           else (examineMatches cfg path cov_Match, w')))"

fun removeNilLoop :: "error option list \<Rightarrow> error list \<Rightarrow> error list" where
  "removeNilLoop [] out = out"
| "removeNilLoop (err # errs) out =
     (case err of
        Some x \<Rightarrow> removeNilLoop errs (out @ [x])
      | None \<Rightarrow> removeNilLoop errs out)"

definition removeNilErrs :: "error option list \<Rightarrow> error list" where
  "removeNilErrs errs = removeNilLoop errs []"

text \<open>
  One goroutine of \<^verbatim>\<open>runConfig\<close>: it examines \<^verbatim>\<open>files[i]\<close> and stores the result in
  \<^verbatim>\<open>errs[i]\<close>. The goroutines started are those of the indices below \<^verbatim>\<open>len(files)\<close>.
  They share nothing but the array, each writing its own slot, so the model runs them
  one after the other in the order \<open>completion e files\<close> in which the scheduler lets
  them finish; \<^verbatim>\<open>wg.Wait()\<close> returns when the last has.
\<close>

definition goroutine :: "env \<Rightarrow> string \<Rightarrow> Config \<Rightarrow> string list \<Rightarrow> error option list \<times> world \<Rightarrow> nat \<Rightarrow> error option list \<times> world" where
  "goroutine e root cfg files st i =
     (if i < length files then
        (case examine e root (files ! i) cfg (snd st) of
           (err, w') \<Rightarrow> ((fst st)[i := err], w'))
      else st)"

definition scanFiles :: "env \<Rightarrow> string \<Rightarrow> Config \<Rightarrow> string list \<Rightarrow> world \<Rightarrow> error option list \<times> world" where
  "scanFiles e root cfg files w =
     foldl (goroutine e root cfg files) (replicate (length files) None, w) (completion e files)"

definition runConfig :: "env \<Rightarrow> Config \<Rightarrow> string \<Rightarrow> world \<Rightarrow> error list \<times> world" where
  "runConfig e cfg root w =
     (case gatherFiles e root cfg of
        Inl err \<Rightarrow> ([''Failed to gather files: '' @ err], w)
      | Inr files \<Rightarrow>
          (case scanFiles e root cfg files
                  (Printf (''Scanning '' @ itoa (length files) @ '' files...'' @ newline) w) of
             (errs, w') \<Rightarrow> (removeNilErrs errs, w')))"

subsection \<open>Loading the configuration\<close>

text \<open>\<^verbatim>\<open>Decode\<close> into a \<^verbatim>\<open>Config\<close>: the JSON decoder delivers the fields and calls
  \<^verbatim>\<open>UnmarshalJSON\<close> on the value of \<^verbatim>\<open>paths\<close> when the key is present.\<close>

definition toConfig :: "env \<Rightarrow> raw_config \<Rightarrow> error + Config" where
  "toConfig e raw =
     (case rawPaths raw of
        None \<Rightarrow> Inr \<lparr>Paths = [], Licenses = rawLicenses raw\<rparr>
      | Some body \<Rightarrow>
          (case UnmarshalJSON e body of
             Inl err \<Rightarrow> Inl err
           | Inr l \<Rightarrow> Inr \<lparr>Paths = l, Licenses = rawLicenses raw\<rparr>))"

fun toConfigs :: "env \<Rightarrow> raw_config list \<Rightarrow> error + Config list" where
  "toConfigs e [] = Inr []"
| "toConfigs e (raw # raws) =
     (case toConfig e raw of
        Inl err \<Rightarrow> Inl err
      | Inr cfg \<Rightarrow>
          (case toConfigs e raws of
             Inl err \<Rightarrow> Inl err
           | Inr cfgs \<Rightarrow> Inr (cfg # cfgs)))"

definition strings_TrimLeft :: "string \<Rightarrow> string \<Rightarrow> string" where
  "strings_TrimLeft s cutset = dropWhile (\<lambda>c. c \<in> set cutset) s"

definition strings_HasPrefix :: "string \<Rightarrow> string \<Rightarrow> bool" where
  "strings_HasPrefix s pre = (take (length pre) s = pre)"

definition loadConfigs :: "env \<Rightarrow> string \<Rightarrow> world \<Rightarrow> (error + Config list) \<times> world" where
  "loadConfigs e root w =
     (case ioutil_ReadFile e (filepath_Join root ConfigFileName) w of
        (Inl err, w') \<Rightarrow> (Inl err, w')
      | (Inr cfgBody, w') \<Rightarrow>
          (if strings_HasPrefix (strings_TrimLeft cfgBody [CHR '' '', CHR 0x0A, CHR 0x09]) ''{'' then
             (case json_Config e cfgBody of
                Inl err \<Rightarrow> (Inl err, w')
              | Inr raw \<Rightarrow>
                  (case toConfig e raw of
                     Inl err \<Rightarrow> (Inl err, w')
                   | Inr cfg \<Rightarrow> (Inr [cfg], w')))
           else
             (case json_Configs e cfgBody of
                Inl err \<Rightarrow> (Inl err, w')
              | Inr raws \<Rightarrow>
                  (case toConfigs e raws of
                     Inl err \<Rightarrow> (Inl err, w')
                   | Inr cfgs \<Rightarrow> (Inr cfgs, w')))))"

subsection \<open>Check\<close>

fun errorLines :: "error list \<Rightarrow> string \<Rightarrow> string" where
  "errorLines [] msg = msg"
| "errorLines (err # errs) msg = errorLines errs (msg @ ''* '' @ err @ newline)"

definition errorsMsg :: "error list \<Rightarrow> string" where
  "errorsMsg errs = errorLines errs (itoa (length errs) @ '' errors:'' @ newline)"

fun checkConfigs :: "env \<Rightarrow> string \<Rightarrow> Config list \<Rightarrow> world \<Rightarrow> error option \<times> world" where
  "checkConfigs e root [] w = (None, Printf (''No license issues found'' @ newline) w)"
| "checkConfigs e root (cfg # cfgs) w =
     (case runConfig e cfg root w of
        (errs, w') \<Rightarrow>
          (if length errs > 0 then (Some (errorsMsg errs), w')
           else checkConfigs e root cfgs w'))"

definition Check :: "env \<Rightarrow> string \<Rightarrow> world \<Rightarrow> error option \<times> world" where
  "Check e dir w =
     (case filepath_Abs e dir of
        Inl err \<Rightarrow> (Some (''Failed to get absolute working directory: '' @ err), w)
      | Inr root \<Rightarrow>
          (case loadConfigs e root w of
             (Inl err, w') \<Rightarrow> (Some (''Failed to load config file: '' @ err), w')
           | (Inr cfgs, w') \<Rightarrow> checkConfigs e root cfgs w'))"

section \<open>The specification's vocabulary\<close>

subsection \<open>Rule sets\<close>

text \<open>A rule as the specification describes it: a tagged value holding compiled
  patterns. \<open>decide\<close> is one step of the evaluation, which is the left fold of it over
  the rules starting from \<open>True\<close>.\<close>

datatype Rule = IncludeRule "Test list" | ExcludeRule "Test list"

fun decide :: "string \<Rightarrow> bool \<Rightarrow> Rule \<Rightarrow> bool" where
  "decide path decision (IncludeRule tests) = (if \<exists>t \<in> set tests. t path then True else decision)"
| "decide path decision (ExcludeRule tests) = (if \<exists>t \<in> set tests. t path then False else decision)"

definition compiled :: "(string \<Rightarrow> error + Test) \<Rightarrow> string list \<Rightarrow> Test list" where
  "compiled mnew patterns =
     map (\<lambda>p. case mnew p of Inr t \<Rightarrow> t | Inl err \<Rightarrow> (\<lambda>path. False)) patterns"

text \<open>The rules a list of parsed entries declares, in declaration order; an entry with
  neither list declares none.\<close>

fun ruleSet :: "(string \<Rightarrow> error + Test) \<Rightarrow> parsed list \<Rightarrow> Rule list" where
  "ruleSet mnew [] = []"
| "ruleSet mnew (r # p) =
     (if Include r \<noteq> [] then IncludeRule (compiled mnew (Include r)) # ruleSet mnew p
      else if Exclude r \<noteq> [] then ExcludeRule (compiled mnew (Exclude r)) # ruleSet mnew p
      else ruleSet mnew p)"

definition conflicting :: "parsed \<Rightarrow> bool" where
  "conflicting r = (Include r \<noteq> [] \<and> Exclude r \<noteq> [])"

text \<open>A configuration object whose \<^verbatim>\<open>paths\<close> value the decoder accepts and whose
  patterns \<^verbatim>\<open>match.New\<close> all accepts, and one that has an entry with both lists.\<close>

definition compiles :: "env \<Rightarrow> raw_config \<Rightarrow> bool" where
  "compiles e raw =
     (case rawPaths raw of
        None \<Rightarrow> True
      | Some rbody \<Rightarrow>
          (case json_parsed e rbody of
             Inl err \<Rightarrow> False
           | Inr p \<Rightarrow> (\<forall>r \<in> set p. \<forall>pat \<in> set (Include r @ Exclude r). \<not> isl (New e pat))))"

definition conflicts :: "env \<Rightarrow> raw_config \<Rightarrow> bool" where
  "conflicts e raw =
     (case rawPaths raw of
        None \<Rightarrow> False
      | Some rbody \<Rightarrow>
          (case json_parsed e rbody of
             Inl err \<Rightarrow> False
           | Inr p \<Rightarrow> (\<exists>r \<in> set p. conflicting r)))"

text \<open>A pattern text without wildcard characters.\<close>

definition plain :: "string \<Rightarrow> bool" where
  "plain lit = (CHR ''*'' \<notin> set lit \<and> CHR ''?'' \<notin> set lit)"

text \<open>A pattern text that does not end in a single \<^verbatim>\<open>*\<close>, which a \<^verbatim>\<open>*\<close> put after
  it would turn into \<^verbatim>\<open>**\<close>.\<close>

definition complete :: "string \<Rightarrow> bool" where
  "complete p = (scan p = [] \<or> last (scan p) \<noteq> Star)"

subsection \<open>Scan results\<close>

datatype ScanResult = Ok | ReadFailure string error | NoLicense string | NotPermitted string string

text \<open>The specification's per-file algorithm over the permitted licenses.\<close>

definition classify :: "env \<Rightarrow> string \<Rightarrow> string \<Rightarrow> string list \<Rightarrow> ScanResult" where
  "classify e root path permitted =
     (case contents e (filepath_Join root path) of
        Inl err \<Rightarrow> ReadFailure path err
      | Inr body \<Rightarrow>
          (if licensecheck_Scan e body = [] then NoLicense path
           else (case find (\<lambda>ident. ident \<notin> set permitted) (licensecheck_Scan e body) of
                   Some ident \<Rightarrow> NotPermitted path ident
                 | None \<Rightarrow> Ok)))"

text \<open>The error value that stands for each result.\<close>

fun report :: "ScanResult \<Rightarrow> error option" where
  "report Ok = None"
| "report (ReadFailure path err) = Some (''Failed to read file '' @ quote @ path @ quote @ '': '' @ err)"
| "report (NoLicense path) = Some (path @ '' has no license'')"
| "report (NotPermitted path ident) = Some (path @ '' uses unsupported license '' @ quote @ ident @ quote)"

definition verdict :: "env \<Rightarrow> string \<Rightarrow> Config \<Rightarrow> string \<Rightarrow> error option" where
  "verdict e root cfg file = report (classify e root file (Licenses cfg))"

text \<open>The sequential reference: the files examined one after the other, in input order.\<close>

fun scanSequential :: "env \<Rightarrow> string \<Rightarrow> Config \<Rightarrow> string list \<Rightarrow> world \<Rightarrow> error option list \<times> world" where
  "scanSequential e root cfg [] w = ([], w)"
| "scanSequential e root cfg (file # files) w =
     (case examine e root file cfg w of
        (err, w') \<Rightarrow>
          (case scanSequential e root cfg files w' of
             (errs, w'') \<Rightarrow> (err # errs, w'')))"

subsection \<open>The run\<close>




text \<open>The configuration objects the JSON decoder delivers for a file body, one for the
  single form and any number for the array form.\<close>

definition rawConfigs :: "env \<Rightarrow> string \<Rightarrow> error + raw_config list" where
  "rawConfigs e cfgBody =
     (if strings_HasPrefix (strings_TrimLeft cfgBody [CHR '' '', CHR 0x0A, CHR 0x09]) ''{'' then
        (case json_Config e cfgBody of Inl err \<Rightarrow> Inl err | Inr raw \<Rightarrow> Inr [raw])
      else json_Configs e cfgBody)"

subsection \<open>Paths of the tree\<close>

text \<open>An entry of the tree is named by the list of names from the root down to it.
  \<open>pathOf\<close> is the path \<^verbatim>\<open>filepath.Walk\<close> passes for it and \<open>relName\<close> its
  slash-separated name relative to the root (\<^verbatim>\<open>.\<close> for the root itself).\<close>

definition pathOf :: "string \<Rightarrow> string list \<Rightarrow> string" where
  "pathOf root names = foldl filepath_Join root names"

fun relName :: "string list \<Rightarrow> string" where
  "relName [] = ''.''"
| "relName [name] = name"
| "relName (name # names) = name @ ''/'' @ relName names"

text \<open>All entries of a tree, and its files, in the order of the walk.\<close>

fun paths :: "node \<Rightarrow> string list list"
  and pathsIn :: "(string \<times> node) list \<Rightarrow> string list list" where
  "paths File = [[]]"
| "paths (Dir entries) = [] # pathsIn entries"
| "pathsIn [] = []"
| "pathsIn ((name, n) # entries) = map ((#) name) (paths n) @ pathsIn entries"

fun filePaths :: "node \<Rightarrow> string list list"
  and filePathsIn :: "(string \<times> node) list \<Rightarrow> string list list" where
  "filePaths File = [[]]"
| "filePaths (Dir entries) = filePathsIn entries"
| "filePathsIn [] = []"
| "filePathsIn ((name, n) # entries) = map ((#) name) (filePaths n) @ filePathsIn entries"

text \<open>\<^verbatim>\<open>filepath.Rel\<close> gives every entry of the tree its relative name.\<close>

definition relOK :: "env \<Rightarrow> string \<Rightarrow> bool" where
  "relOK e root =
     (\<forall>p \<in> set (paths (tree e)). filepath_Rel e root (pathOf root p) = Inr (relName p))"

text \<open>An entry on which the walk function takes neither branch of its switch.\<close>

definition inner :: "env \<Rightarrow> string \<Rightarrow> string list \<Rightarrow> bool" where
  "inner e root p =
     (filepath_Rel e root (pathOf root p) = Inr (relName p) \<and>
      relName p \<noteq> ''.git'' \<and> relName p \<noteq> ConfigFileName)"

text \<open>The relative names of those entries of a list that \<^verbatim>\<open>shouldExamine\<close> accepts.\<close>

definition picked :: "env \<Rightarrow> string \<Rightarrow> Config \<Rightarrow> string list list \<Rightarrow> string list" where
  "picked e root cfg ps =
     map relName (filter (\<lambda>p. shouldExamine e cfg root (pathOf root p)) ps)"

text \<open>The entries of the root directory the walk gets to: an entry named \<^verbatim>\<open>.git\<close> is
  passed over, and when it is not a directory the walk ends there.\<close>

fun reached :: "(string \<times> node) list \<Rightarrow> (string \<times> node) list" where
  "reached [] = []"
| "reached ((name, n) # entries) =
     (if name = ''.git'' then (if isDir n then reached entries else [])
      else (name, n) # reached entries)"

subsection \<open>An example project\<close>

text \<open>A project at \<^verbatim>\<open>/p\<close> with the configuration of the README: the rules exclude
  \<^verbatim>\<open>out/*\<close> and \<^verbatim>\<open>build/*\<close>, then include \<^verbatim>\<open>out/foo.txt\<close>; the license \<^verbatim>\<open>MIT\<close> is
  permitted. The entry \<^verbatim>\<open>.git\<close> of the root is left open. \<open>exampleRel\<close> strips the
  root from a path below it and fails on any other path. The scheduler lets the
  goroutines finish in the reverse of the order in which they were started.\<close>

definition exampleRel :: "string \<Rightarrow> string \<Rightarrow> error + string" where
  "exampleRel basepath targpath =
     (if targpath = basepath then Inr ''.''
      else if take (length basepath + 1) targpath = basepath @ ''/''
        then Inr (drop (length basepath + 1) targpath)
      else Inl (''Rel: cannot make '' @ targpath @ '' relative to '' @ basepath))"

definition exampleTree :: "node \<Rightarrow> node" where
  "exampleTree git =
     Dir [(''.git'', git),
          (''build'', Dir [(''x'', File)]),
          (''license-checker.cfg'', File),
          (''out'', Dir [(''bar.txt'', File), (''foo.txt'', File)])]"

definition exampleParsed :: "parsed list" where
  "exampleParsed =
     [\<lparr>Include = [], Exclude = [''out/*'', ''build/*'']\<rparr>,
      \<lparr>Include = [''out/foo.txt''], Exclude = []\<rparr>]"

definition exampleEnv :: "node \<Rightarrow> env" where
  "exampleEnv git =
     \<lparr>filepath_Abs = Inr,
      filepath_Rel = exampleRel,
      New = match_New,
      json_parsed = (\<lambda>body. if body = ''paths'' then Inr exampleParsed
                             else Inl ''unexpected end of JSON input''),
      json_Config = (\<lambda>body. if body = ''{config}''
                             then Inr \<lparr>rawPaths = Some ''paths'', rawLicenses = [''MIT'']\<rparr>
                             else Inl ''unexpected end of JSON input''),
      json_Configs = (\<lambda>body. Inl ''unexpected end of JSON input''),
      contents = (\<lambda>path. if path = ''/p/license-checker.cfg'' then Inr ''{config}''
                          else if path = ''/p/out/foo.txt'' then Inr ''MIT License''
                          else if path = ''/p/out/bar.txt'' then Inr ''no header''
                          else Inl (''open '' @ path @ '': permission denied'')),
      licensecheck_Scan = (\<lambda>body. if body = ''MIT License'' then [''MIT''] else []),
      tree = exampleTree git,
      completion = (\<lambda>files. rev [0..<length files])\<rparr>"

definition exampleConfig :: Config where
  "exampleConfig =
     \<lparr>Paths = [excludeRule [matches (scan ''out/*''), matches (scan ''build/*'')],
               includeRule [matches (scan ''out/foo.txt'')]],
      Licenses = [''MIT'']\<rparr>"

definition world0 :: world where
  "world0 = \<lparr>stdout = [], reads = []\<rparr>"

text \<open>The same project with an array of two configurations: the first has no rules,
  the second the rules above.\<close>

definition exampleEnv2 :: env where
  "exampleEnv2 =
     (exampleEnv (Dir [(''HEAD'', File)]))
       \<lparr>json_Configs := (\<lambda>body. if body = ''[configs]''
                            then Inr [\<lparr>rawPaths = None, rawLicenses = [''MIT'']\<rparr>,
                                      \<lparr>rawPaths = Some ''paths'', rawLicenses = [''MIT'']\<rparr>]
                            else Inl ''unexpected end of JSON input''),
         contents := (\<lambda>path. if path = ''/p/license-checker.cfg'' then Inr ''[configs]''
                             else contents (exampleEnv (Dir [(''HEAD'', File)])) path)\<rparr>"

text \<open>A configuration whose one rule includes every path.\<close>

definition includeAll :: Config where
  "includeAll = \<lparr>Paths = [includeRule [matches (scan ''**'')]], Licenses = []\<rparr>"

text \<open>The rules of the README with the directory \<^verbatim>\<open>out\<close> itself excluded as well.\<close>

definition excludedDirConfig :: Config where
  "excludedDirConfig =
     \<lparr>Paths = [excludeRule [matches (scan ''out''), matches (scan ''out/*''),
                            matches (scan ''build/*'')],
               includeRule [matches (scan ''out/foo.txt'')]],
      Licenses = [''MIT'']\<rparr>"

text \<open>A configuration without rules.\<close>

definition openConfig :: Config where
  "openConfig = \<lparr>Paths = [], Licenses = [''MIT'']\<rparr>"

section \<open>Lemmas\<close>

subsection \<open>Rules\<close>

lemma newTests_compiled: "newTests mnew ps = Inr tests \<Longrightarrow> tests = compiled mnew ps"
  by (induction ps arbitrary: tests) (auto simp: compiled_def split: sum.splits)

lemma includeRule_decide: "includeRule tests path d = decide path d (IncludeRule tests)"
  by (induction tests) auto

lemma excludeRule_decide: "excludeRule tests path d = decide path d (ExcludeRule tests)"
  by (induction tests) auto

lemma applyRules_append: "applyRules (l @ l') path d = applyRules l' path (applyRules l path d)"
  by (induction l arbitrary: d) auto

lemma unmarshalRules_fold:
  "unmarshalRules mnew p l = Inr rules \<Longrightarrow>
   applyRules rules path d = foldl (decide path) (applyRules l path d) (ruleSet mnew p)"
proof (induction p arbitrary: l)
  case Nil
  then show ?case by simp
next
  case (Cons r p)
  show ?case
  proof (cases "Include r \<noteq> []")
    case True
    with Cons.prems have ex: "Exclude r = []" by (auto split: if_splits)
    from Cons.prems True ex obtain tests where
      t: "newTests mnew (Include r) = Inr tests" and
      u: "unmarshalRules mnew p (l @ [includeRule tests]) = Inr rules"
      by (auto split: sum.splits)
    from Cons.IH[OF u] newTests_compiled[OF t] True show ?thesis
      by (simp add: applyRules_append includeRule_decide del: decide.simps)
  next
    case False
    note inc = this
    show ?thesis
    proof (cases "Exclude r \<noteq> []")
      case True
      from Cons.prems True inc obtain tests where
        t: "newTests mnew (Exclude r) = Inr tests" and
        u: "unmarshalRules mnew p (l @ [excludeRule tests]) = Inr rules"
        by (auto split: sum.splits)
      from Cons.IH[OF u] newTests_compiled[OF t] True inc show ?thesis
        by (simp add: applyRules_append excludeRule_decide del: decide.simps)
    next
      case False
      with Cons.prems inc have "unmarshalRules mnew p l = Inr rules" by simp
      from Cons.IH[OF this] False inc show ?thesis by simp
    qed
  qed
qed

lemma unmarshalRules_conflict:
  "r \<in> set p \<Longrightarrow> conflicting r \<Longrightarrow> \<exists>err. unmarshalRules mnew p l = Inl err"
proof (induction p arbitrary: l)
  case Nil
  then show ?case by simp
next
  case (Cons q p)
  show ?case
  proof (cases "conflicting q")
    case True
    then show ?thesis by (simp add: conflicting_def)
  next
    case False
    with Cons.prems have "r \<in> set p" by auto
    from Cons.IH[OF this Cons.prems(2)] show ?thesis
      by (auto split: sum.splits)
  qed
qed

lemma unmarshalRules_first_conflict:
  "unmarshalRules mnew pre l = Inr l' \<Longrightarrow> conflicting r \<Longrightarrow>
   unmarshalRules mnew (pre @ r # post) l = Inl ''Rule cannot contain both include and exclude''"
proof (induction pre arbitrary: l)
  case Nil
  then show ?case by (simp add: conflicting_def)
next
  case (Cons q pre)
  then show ?case by (auto split: sum.splits if_splits)
qed

lemma newTests_compile:
  "\<forall>pat \<in> set ps. \<not> isl (mnew pat) \<Longrightarrow> \<exists>tests. newTests mnew ps = Inr tests"
proof (induction ps)
  case Nil
  then show ?case by simp
next
  case (Cons pat ps)
  then obtain t where "mnew pat = Inr t" by (cases "mnew pat") auto
  moreover from Cons obtain ts where "newTests mnew ps = Inr ts" by auto
  ultimately show ?case by simp
qed

lemma unmarshalRules_only_conflict:
  "\<forall>r \<in> set p. \<forall>pat \<in> set (Include r @ Exclude r). \<not> isl (mnew pat) \<Longrightarrow>
   unmarshalRules mnew p l = Inl err \<Longrightarrow>
   err = ''Rule cannot contain both include and exclude''"
proof (induction p arbitrary: l)
  case Nil
  then show ?case by simp
next
  case (Cons r p)
  from Cons.prems(1) have inc: "\<exists>tests. newTests mnew (Include r) = Inr tests"
    by (intro newTests_compile) simp
  from Cons.prems(1) have exc: "\<exists>tests. newTests mnew (Exclude r) = Inr tests"
    by (intro newTests_compile) simp
  from Cons.prems(1) have rest: "\<forall>r \<in> set p. \<forall>pat \<in> set (Include r @ Exclude r). \<not> isl (mnew pat)"
    by simp
  from Cons.prems(2) inc exc Cons.IH[OF rest] show ?case
    by (auto split: if_splits)
qed

lemma example_unmarshal: "UnmarshalJSON (exampleEnv git) ''paths'' = Inr (Paths exampleConfig)"
  by (simp add: UnmarshalJSON_def exampleEnv_def exampleParsed_def exampleConfig_def match_New_def)

subsection \<open>Patterns\<close>

lemma matches_Star_skip: "matches ts a \<Longrightarrow> matches (Star # ts) a"
  by (cases a) simp_all

lemma matches_StarStar_skip: "matches ts a \<Longrightarrow> matches (StarStar # ts) a"
  by (cases a) simp_all

lemma matches_append:
  "matches (ts @ us) s = (\<exists>a b. s = a @ b \<and> matches ts a \<and> matches us b)"
proof (induction ts s rule: matches.induct)
  case (1 s)
  then show ?case by simp
next
  case (2 c ts)
  then show ?case by simp
next
  case (3 c ts x xs)
  show ?case
  proof
    assume "matches ((Lit c # ts) @ us) (x # xs)"
    then have xc: "x = c" and "matches (ts @ us) xs" by simp_all
    with 3 obtain a b where "xs = a @ b" "matches ts a" "matches us b" by auto
    with xc have "x # xs = (x # a) @ b \<and> matches (Lit c # ts) (x # a) \<and> matches us b" by simp
    then show "\<exists>a b. x # xs = a @ b \<and> matches (Lit c # ts) a \<and> matches us b" by blast
  next
    assume "\<exists>a b. x # xs = a @ b \<and> matches (Lit c # ts) a \<and> matches us b"
    then obtain a b where ab: "x # xs = a @ b" "matches (Lit c # ts) a" "matches us b" by blast
    from ab(2) obtain a' where a: "a = c # a'" "matches ts a'" by (cases a) auto
    with ab 3 show "matches ((Lit c # ts) @ us) (x # xs)" by auto
  qed
next
  case (4 ts)
  then show ?case by simp
next
  case (5 ts x xs)
  show ?case
  proof
    assume "matches ((AnyChar # ts) @ us) (x # xs)"
    then have xc: "x \<noteq> CHR ''/''" and "matches (ts @ us) xs" by simp_all
    with 5 obtain a b where "xs = a @ b" "matches ts a" "matches us b" by auto
    with xc have "x # xs = (x # a) @ b \<and> matches (AnyChar # ts) (x # a) \<and> matches us b" by simp
    then show "\<exists>a b. x # xs = a @ b \<and> matches (AnyChar # ts) a \<and> matches us b" by blast
  next
    assume "\<exists>a b. x # xs = a @ b \<and> matches (AnyChar # ts) a \<and> matches us b"
    then obtain a b where ab: "x # xs = a @ b" "matches (AnyChar # ts) a" "matches us b" by blast
    from ab(2) obtain y a' where a: "a = y # a'" "y \<noteq> CHR ''/''" "matches ts a'" by (cases a) auto
    with ab 5 show "matches ((AnyChar # ts) @ us) (x # xs)" by auto
  qed
next
  case (6 ts)
  then show ?case by simp
next
  case (7 ts x xs)
  show ?case
  proof
    assume "matches ((Star # ts) @ us) (x # xs)"
    then consider "matches (ts @ us) (x # xs)" | "x \<noteq> CHR ''/''" "matches ((Star # ts) @ us) xs"
      by auto
    then show "\<exists>a b. x # xs = a @ b \<and> matches (Star # ts) a \<and> matches us b"
    proof cases
      case 1
      with "7.IH"(1) obtain a b where "x # xs = a @ b" "matches ts a" "matches us b" by auto
      then show ?thesis using matches_Star_skip by blast
    next
      case 2
      with "7.IH"(2) obtain a b where "xs = a @ b" "matches (Star # ts) a" "matches us b" by auto
      with 2(1) have "x # xs = (x # a) @ b \<and> matches (Star # ts) (x # a) \<and> matches us b" by simp
      then show ?thesis by blast
    qed
  next
    assume "\<exists>a b. x # xs = a @ b \<and> matches (Star # ts) a \<and> matches us b"
    then obtain a b where ab: "x # xs = a @ b" "matches (Star # ts) a" "matches us b" by blast
    show "matches ((Star # ts) @ us) (x # xs)"
    proof (cases a)
      case Nil
      with ab have "x # xs = [] @ b \<and> matches ts [] \<and> matches us b" by simp
      then have "matches (ts @ us) (x # xs)" using "7.IH"(1) by blast
      then show ?thesis by simp
    next
      case (Cons y a')
      with ab have y: "y = x" and xs: "xs = a' @ b" by simp_all
      from ab(2) Cons y consider "matches ts (x # a')" | "x \<noteq> CHR ''/''" "matches (Star # ts) a'"
        by auto
      then show ?thesis
      proof cases
        case 1
        with xs ab(3) have "x # xs = (x # a') @ b \<and> matches ts (x # a') \<and> matches us b" by simp
        then have "matches (ts @ us) (x # xs)" using "7.IH"(1) by blast
        then show ?thesis by simp
      next
        case 2
        with xs ab(3) have "matches ((Star # ts) @ us) xs" using "7.IH"(2) by blast
        with 2(1) show ?thesis by simp
      qed
    qed
  qed
next
  case (8 ts)
  then show ?case by simp
next
  case (9 ts x xs)
  show ?case
  proof
    assume "matches ((StarStar # ts) @ us) (x # xs)"
    then consider "matches (ts @ us) (x # xs)" | "matches ((StarStar # ts) @ us) xs"
      by auto
    then show "\<exists>a b. x # xs = a @ b \<and> matches (StarStar # ts) a \<and> matches us b"
    proof cases
      case 1
      with "9.IH"(1) obtain a b where "x # xs = a @ b" "matches ts a" "matches us b" by auto
      then show ?thesis using matches_StarStar_skip by blast
    next
      case 2
      with "9.IH"(2) obtain a b where "xs = a @ b" "matches (StarStar # ts) a" "matches us b" by auto
      then have "x # xs = (x # a) @ b \<and> matches (StarStar # ts) (x # a) \<and> matches us b" by simp
      then show ?thesis by blast
    qed
  next
    assume "\<exists>a b. x # xs = a @ b \<and> matches (StarStar # ts) a \<and> matches us b"
    then obtain a b where ab: "x # xs = a @ b" "matches (StarStar # ts) a" "matches us b" by blast
    show "matches ((StarStar # ts) @ us) (x # xs)"
    proof (cases a)
      case Nil
      with ab have "x # xs = [] @ b \<and> matches ts [] \<and> matches us b" by simp
      then have "matches (ts @ us) (x # xs)" using "9.IH"(1) by blast
      then show ?thesis by simp
    next
      case (Cons y a')
      with ab have y: "y = x" and xs: "xs = a' @ b" by simp_all
      from ab(2) Cons y consider "matches ts (x # a')" | "matches (StarStar # ts) a'"
        by auto
      then show ?thesis
      proof cases
        case 1
        with xs ab(3) have "x # xs = (x # a') @ b \<and> matches ts (x # a') \<and> matches us b" by simp
        then have "matches (ts @ us) (x # xs)" using "9.IH"(1) by blast
        then show ?thesis by simp
      next
        case 2
        with xs ab(3) have "matches ((StarStar # ts) @ us) xs" using "9.IH"(2) by blast
        then show ?thesis by simp
      qed
    qed
  qed
qed

lemma matches_Star: "matches [Star] s = (CHR ''/'' \<notin> set s)"
  by (induction s) auto

lemma matches_StarStar: "matches [StarStar] s"
  by (induction s) auto

lemma matches_Lit: "matches (map Lit lit) s = (s = lit)"
proof (induction lit arbitrary: s)
  case Nil
  then show ?case by simp
next
  case (Cons c lit)
  then show ?case by (cases s) auto
qed

lemma scan_plain: "plain lit \<Longrightarrow> scan lit = map Lit lit"
  by (induction lit) (auto simp: plain_def)

lemma scan_plain_then: "plain lit \<Longrightarrow> scan (lit @ rest) = map Lit lit @ scan rest"
  by (induction lit) (auto simp: plain_def)

lemma scan_star: "plain l1 \<Longrightarrow> plain l2 \<Longrightarrow> scan (l1 @ ''*'' @ l2) = map Lit l1 @ Star # map Lit l2"
  by (cases l2) (auto simp: scan_plain_then scan_plain plain_def)

lemma scan_starstar: "plain l1 \<Longrightarrow> plain l2 \<Longrightarrow> scan (l1 @ ''**'' @ l2) = map Lit l1 @ StarStar # map Lit l2"
  by (auto simp: scan_plain_then scan_plain)

lemma scan_nonempty: "p \<noteq> [] \<Longrightarrow> scan p \<noteq> []"
  by (cases p) (auto split: list.splits)

lemma scan_append: "complete p1 \<Longrightarrow> scan (p1 @ p2) = scan p1 @ scan p2"
proof (induction p1 rule: scan.induct)
  case 1
  then show ?case by simp
next
  case (2 c cs)
  show ?case
  proof (cases "c = CHR ''*''")
    case True
    note star = this
    show ?thesis
    proof (cases cs)
      case Nil
      with star "2.prems" show ?thesis by (simp add: complete_def)
    next
      case (Cons d ds)
      show ?thesis
      proof (cases "d = CHR ''*''")
        case True
        with star Cons "2.prems" have "complete ds"
          by (auto simp: complete_def split: if_splits)
        with "2.IH"(1)[OF star Cons True] star Cons True show ?thesis by simp
      next
        case False
        from Cons have ne: "scan cs \<noteq> []" by (intro scan_nonempty) simp
        with star Cons False "2.prems" have "complete cs"
          by (simp add: complete_def)
        with "2.IH"(2)[OF star Cons False] star Cons False show ?thesis by simp
      qed
    qed
  next
    case False
    note nostar = this
    have c: "complete cs"
    proof (cases "scan cs = []")
      case True
      then show ?thesis by (simp add: complete_def)
    next
      case False
      with nostar "2.prems" show ?thesis by (auto simp: complete_def split: if_splits)
    qed
    show ?thesis
    proof (cases "c = CHR ''?''")
      case True
      with "2.IH"(3)[OF nostar True c] nostar show ?thesis by simp
    next
      case False
      with "2.IH"(4)[OF nostar False c] nostar show ?thesis by simp
    qed
  qed
qed

lemma scan_star_at:
  "complete p1 \<Longrightarrow> p2 = [] \<or> hd p2 \<noteq> CHR ''*'' \<Longrightarrow> scan (p1 @ ''*'' @ p2) = scan p1 @ Star # scan p2"
  by (cases p2) (auto simp: scan_append)

lemma scan_starstar_at: "complete p1 \<Longrightarrow> scan (p1 @ ''**'' @ p2) = scan p1 @ StarStar # scan p2"
  by (simp add: scan_append)

lemma matches_at_Star:
  "matches (pre @ Star # post) s =
     (\<exists>a b c. s = a @ b @ c \<and> matches pre a \<and> CHR ''/'' \<notin> set b \<and> matches post c)"
proof -
  have "matches (pre @ [Star] @ post) s =
        (\<exists>a r. s = a @ r \<and> matches pre a \<and> (\<exists>b c. r = b @ c \<and> CHR ''/'' \<notin> set b \<and> matches post c))"
    by (simp only: matches_append matches_Star)
  then show ?thesis by auto
qed

lemma matches_at_StarStar:
  "matches (pre @ StarStar # post) s =
     (\<exists>a b c. s = a @ b @ c \<and> matches pre a \<and> matches post c)"
proof -
  have "matches (pre @ [StarStar] @ post) s =
        (\<exists>a r. s = a @ r \<and> matches pre a \<and> (\<exists>b c. r = b @ c \<and> True \<and> matches post c))"
    by (simp only: matches_append matches_StarStar)
  then show ?thesis by auto
qed

subsection \<open>Examining and scanning\<close>

lemma allowsLoop_set: "allowsLoop ls name = (name \<in> set ls)"
  by (induction ls) auto

lemma examineMatches_find:
  "examineMatches cfg path ms =
     (case find (\<lambda>ident. ident \<notin> set (Licenses cfg)) ms of
        Some ident \<Rightarrow> report (NotPermitted path ident)
      | None \<Rightarrow> None)"
  by (induction ms) (auto simp: allowsLicense_def allowsLoop_set)

lemma examine_fst: "fst (examine e root path cfg w) = report (classify e root path (Licenses cfg))"
  by (auto simp: examine_def ioutil_ReadFile_def classify_def examineMatches_find Let_def
      split: sum.splits option.splits)


lemma removeNilLoop_filter: "removeNilLoop errs out = out @ map the (filter (\<lambda>x. x \<noteq> None) errs)"
  by (induction errs arbitrary: out) (auto split: option.splits)

lemma removeNilErrs_filter: "removeNilErrs errs = map the (filter (\<lambda>x. x \<noteq> None) errs)"
  by (simp add: removeNilErrs_def removeNilLoop_filter)

lemma nth_survivors:
  "map the (filter (\<lambda>x. x \<noteq> None) xs) =
     map (\<lambda>i. the (xs ! i)) (filter (\<lambda>i. xs ! i \<noteq> None) [0..<length xs])"
proof -
  have "filter (\<lambda>x. x \<noteq> None) (map ((!) xs) [0..<length xs]) =
        map ((!) xs) (filter (\<lambda>i. xs ! i \<noteq> None) [0..<length xs])"
    by (simp add: filter_map comp_def)
  then show ?thesis by (simp add: map_nth comp_def)
qed

lemma goroutine_fst:
  "fst (goroutine e root cfg files st i) =
     (if i < length files then (fst st)[i := verdict e root cfg (files ! i)] else fst st)"
  using examine_fst[of e root "files ! i" cfg "snd st"]
  by (auto simp: goroutine_def verdict_def split: prod.splits)

lemma fold_goroutine_fst:
  "fst (foldl (goroutine e root cfg files) st is) =
     foldl (\<lambda>errs i. if i < length files then errs[i := verdict e root cfg (files ! i)] else errs) (fst st) is"
  by (induction "is" arbitrary: st) (simp_all add: goroutine_fst)

lemma fold_slots_length:
  "length (foldl (\<lambda>errs i. if i < n then errs[i := f i] else errs) errs is) = length errs"
  by (induction "is" arbitrary: errs) auto

lemma fold_slots_nth:
  "k < length errs \<Longrightarrow> length errs = n \<Longrightarrow>
   foldl (\<lambda>errs i. if i < n then errs[i := f i] else errs) errs is ! k =
     (if k \<in> set is then f k else errs ! k)"
proof (induction "is" arbitrary: errs)
  case Nil
  then show ?case by simp
next
  case (Cons i "is")
  show ?case
  proof (cases "i < n")
    case True
    with Cons.prems Cons.IH[of "errs[i := f i]"] show ?thesis
      by (auto simp: nth_list_update)
  next
    case False
    with Cons.prems Cons.IH[of errs] show ?thesis by auto
  qed
qed

lemma scanFiles_slots:
  assumes "set (completion e files) = {..<length files}"
  shows "fst (scanFiles e root cfg files w) = map (verdict e root cfg) files"
proof (rule nth_equalityI)
  show "length (fst (scanFiles e root cfg files w)) = length (map (verdict e root cfg) files)"
    by (simp add: scanFiles_def fold_goroutine_fst fold_slots_length)
next
  fix k assume "k < length (fst (scanFiles e root cfg files w))"
  then have k: "k < length files"
    by (simp add: scanFiles_def fold_goroutine_fst fold_slots_length)
  then show "fst (scanFiles e root cfg files w) ! k = map (verdict e root cfg) files ! k"
    using assms fold_slots_nth[of k "replicate (length files) None" "length files"
        "\<lambda>i. verdict e root cfg (files ! i)" "completion e files"]
    by (simp add: scanFiles_def fold_goroutine_fst)
qed

lemma scanSequential_fst: "fst (scanSequential e root cfg files w) = map (verdict e root cfg) files"
proof (induction files arbitrary: w)
  case Nil
  then show ?case by simp
next
  case (Cons f fs)
  obtain err w' where ex: "examine e root f cfg w = (err, w')" by (cases "examine e root f cfg w")
  with examine_fst[of e root f cfg w] have "err = verdict e root cfg f" by (simp add: verdict_def)
  with ex Cons.IH[of w'] show ?case by (cases "scanSequential e root cfg fs w'") simp
qed




subsection \<open>The walk\<close>

lemma pathOf_snoc: "filepath_Join (pathOf root names) name = pathOf root (names @ [name])"
  by (simp add: pathOf_def)

lemma gatherFn_inner:
  "inner e root p \<Longrightarrow>
   gatherFn e root cfg (pathOf root p) d files =
     (Nil, if shouldExamine e cfg root (pathOf root p) \<and> \<not> d then files @ [relName p] else files)"
  by (simp add: gatherFn_def inner_def)

lemma picked_append: "picked e root cfg (ps @ qs) = picked e root cfg ps @ picked e root cfg qs"
  by (simp add: picked_def)

lemma walk_inner:
  "(\<forall>ms \<in> set (paths n). inner e root (names @ ms)) \<Longrightarrow>
     walk (gatherFn e root cfg) (pathOf root names) n files =
       (Nil, files @ picked e root cfg (map ((@) names) (filePaths n)))"
  "(\<forall>ms \<in> set (pathsIn es). inner e root (names @ ms)) \<Longrightarrow>
     walkNames (gatherFn e root cfg) (pathOf root names) es files =
       (Nil, files @ picked e root cfg (map ((@) names) (filePathsIn es)))"
proof (induction n and es arbitrary: names files and names files rule: paths_pathsIn.induct)
  case 1
  then have "inner e root names" by simp
  then show ?case by (simp add: gatherFn_inner picked_def)
next
  case (2 entries)
  from "2.prems" have i: "inner e root names" by simp
  from "2.prems" have "\<forall>ms \<in> set (pathsIn entries). inner e root (names @ ms)" by simp
  from "2.IH"[OF this] i show ?case by (simp add: gatherFn_inner)
next
  case 3
  then show ?case by (simp add: picked_def)
next
  case (4 name n entries)
  from "4.prems" have a: "\<forall>ms \<in> set (paths n). inner e root ((names @ [name]) @ ms)" by simp
  from "4.prems" have b: "\<forall>ms \<in> set (pathsIn entries). inner e root (names @ ms)" by simp
  show ?case
    using "4.IH"(1)[OF a, of files] "4.IH"(2)[OF b]
    by (simp add: pathOf_snoc picked_append comp_def)
qed


lemma relName_slash: "ms \<noteq> [] \<Longrightarrow> CHR ''/'' \<in> set (relName (name # ms))"
  by (cases ms) auto

lemma relName_nested: "ms \<noteq> [] \<Longrightarrow> relName (name # ms) \<noteq> ''.git'' \<and> relName (name # ms) \<noteq> ConfigFileName"
proof -
  assume "ms \<noteq> []"
  then have "CHR ''/'' \<in> set (relName (name # ms))" by (rule relName_slash)
  moreover have "CHR ''/'' \<notin> set ''.git''" "CHR ''/'' \<notin> set ConfigFileName"
    by (simp_all add: ConfigFileName_def)
  ultimately show ?thesis by metis
qed

lemma relName_top: "p \<noteq> [] \<Longrightarrow> hd p \<noteq> x \<Longrightarrow> CHR ''/'' \<notin> set x \<Longrightarrow> relName p \<noteq> x"
proof -
  assume a: "p \<noteq> []" "hd p \<noteq> x" "CHR ''/'' \<notin> set x"
  then obtain name ms where p: "p = name # ms" by (cases p) auto
  show ?thesis
  proof (cases ms)
    case Nil
    with p a show ?thesis by simp
  next
    case (Cons m ms')
    then have "CHR ''/'' \<in> set (relName (name # ms))" by (intro relName_slash) simp
    with a p show ?thesis by metis
  qed
qed

lemma relName_not_cfg: "p \<noteq> [] \<Longrightarrow> p \<noteq> [ConfigFileName] \<Longrightarrow> relName p \<noteq> ConfigFileName"
proof -
  assume a: "p \<noteq> []" "p \<noteq> [ConfigFileName]"
  then obtain name ms where p: "p = name # ms" by (cases p) auto
  show ?thesis
  proof (cases ms)
    case Nil
    with p a show ?thesis by simp
  next
    case (Cons m ms')
    then have "ms \<noteq> []" by simp
    from relName_nested[OF this] p show ?thesis by simp
  qed
qed

lemma first_segment:
  assumes "CHR ''/'' \<notin> set name" and "prefix (pre @ ''/'') (relName (name # ms))" and "CHR ''/'' \<notin> set pre"
  shows "name = pre"
proof (cases ms)
  case Nil
  with assms(2) have "prefix (pre @ ''/'') name" by simp
  then have "set (pre @ ''/'') \<subseteq> set name" by (rule set_mono_prefix)
  with assms(1) show ?thesis by simp
next
  case (Cons m ms')
  then have r: "relName (name # ms) = name @ ''/'' @ relName ms" by simp
  from assms(2) obtain rest where "relName (name # ms) = (pre @ ''/'') @ rest"
    by (auto simp: prefix_def)
  with r have eq: "name @ CHR ''/'' # relName ms = pre @ CHR ''/'' # rest" by simp
  have "takeWhile (\<lambda>c. c \<noteq> CHR ''/'') (name @ CHR ''/'' # relName ms) = name"
    using assms(1) by (auto simp: takeWhile_tail)
  moreover have "takeWhile (\<lambda>c. c \<noteq> CHR ''/'') (pre @ CHR ''/'' # rest) = pre"
    using assms(3) by (auto simp: takeWhile_tail)
  ultimately show ?thesis using eq by simp
qed

lemma pathsIn_nonempty: "[] \<notin> set (pathsIn es)"
  by (induction es) auto

lemma filePathsIn_nonempty: "[] \<notin> set (filePathsIn es)"
  by (induction es) auto

lemma filePathsIn_head: "p \<in> set (filePathsIn es) \<Longrightarrow> p \<noteq> [] \<and> hd p \<in> fst ` set es"
proof (induction es)
  case Nil
  then show ?case by simp
next
  case (Cons en es)
  obtain name n where en: "en = (name, n)" by (cases en)
  with Cons show ?case by auto
qed

lemma filter_cfg_under:
  "filter (\<lambda>p. p \<noteq> [c]) (map ((#) name) ps) = (if name = c then map ((#) name) (filter (\<lambda>p. p \<noteq> []) ps) else map ((#) name) ps)"
  by (induction ps) auto

lemma filter_nonempty_id: "[] \<notin> set ps \<Longrightarrow> filter (\<lambda>p. p \<noteq> []) ps = ps"
  by (induction ps) auto

lemma append_single: "(@) [x] = (#) x"
  by (rule ext) simp

lemma walkNames_top:
  assumes "\<forall>p \<in> set (pathsIn es). filepath_Rel e root (pathOf root p) = Inr (relName p)"
  shows "snd (walkNames (gatherFn e root cfg) root es files) =
           files @ picked e root cfg (filter (\<lambda>p. p \<noteq> [ConfigFileName]) (filePathsIn (reached es)))
         \<and> (\<forall>err. fst (walkNames (gatherFn e root cfg) root es files) \<noteq> Fail err)"
  using assms
proof (induction es arbitrary: files)
  case Nil
  then show ?case by (simp add: picked_def)
next
  case (Cons en es)
  obtain name n where en: "en = (name, n)" by (cases en)
  from Cons.prems en have rest: "\<forall>p \<in> set (pathsIn es). filepath_Rel e root (pathOf root p) = Inr (relName p)"
    by simp
  note IH = Cons.IH[OF rest]
  from Cons.prems en have sub: "\<forall>ms \<in> set (paths n). filepath_Rel e root (pathOf root (name # ms)) = Inr (relName (name # ms))"
    by simp
  have top: "filepath_Rel e root (filepath_Join root name) = Inr name"
  proof -
    have "[] \<in> set (paths n)" by (cases n) auto
    with sub show ?thesis by (fastforce simp: pathOf_def)
  qed
  show ?case
  proof (cases "name = ''.git''")
    case True
    then have g: "\<And>d fs. gatherFn e root cfg (filepath_Join root name) d fs = (SkipDir, fs)"
      using top by (simp add: gatherFn_def)
    show ?thesis
    proof (cases n)
      case File
      with True g en show ?thesis by (simp add: picked_def)
    next
      case (Dir sub)
      with True g en IH show ?thesis by simp
    qed
  next
    case notgit: False
    show ?thesis
    proof (cases "name = ConfigFileName")
      case True
      then have g: "\<And>d fs. gatherFn e root cfg (filepath_Join root name) d fs = (Nil, fs)"
        using top notgit by (simp add: gatherFn_def)
      show ?thesis
      proof (cases n)
        case File
        with True notgit g en IH show ?thesis by (simp add: picked_def)
      next
        case (Dir sub)
        have "\<forall>ms \<in> set (pathsIn sub). inner e root ([name] @ ms)"
        proof
          fix ms assume m: "ms \<in> set (pathsIn sub)"
          then have ne: "ms \<noteq> []" using pathsIn_nonempty by metis
          from m Dir sub have "filepath_Rel e root (pathOf root (name # ms)) = Inr (relName (name # ms))"
            by simp
          with relName_nested[OF ne] show "inner e root ([name] @ ms)" by (simp add: inner_def)
        qed
        from walk_inner(2)[OF this, of cfg files]
        have w: "walkNames (gatherFn e root cfg) (filepath_Join root name) sub files =
                  (Nil, files @ picked e root cfg (map ((#) name) (filePathsIn sub)))"
          by (simp add: pathOf_def append_single)
        have f: "filter (\<lambda>p. p \<noteq> [ConfigFileName]) (map ((#) name) (filePathsIn sub)) = map ((#) name) (filePathsIn sub)"
          using True by (simp add: filter_cfg_under filter_nonempty_id filePathsIn_nonempty)
        from notgit Dir g en w IH f show ?thesis
          by (simp add: picked_append)
      qed
    next
      case notcfg: False
      have "\<forall>ms \<in> set (paths n). inner e root ([name] @ ms)"
      proof
        fix ms assume m: "ms \<in> set (paths n)"
        with sub have r: "filepath_Rel e root (pathOf root (name # ms)) = Inr (relName (name # ms))"
          by simp
        show "inner e root ([name] @ ms)"
        proof (cases "ms = []")
          case True
          with r notgit notcfg show ?thesis by (simp add: inner_def)
        next
          case False
          with r relName_nested[OF False] show ?thesis by (simp add: inner_def)
        qed
      qed
      from walk_inner(1)[OF this, of cfg files]
      have w: "walk (gatherFn e root cfg) (filepath_Join root name) n files =
                (Nil, files @ picked e root cfg (map ((#) name) (filePaths n)))"
        by (simp add: pathOf_def append_single)
      have f: "filter (\<lambda>p. p \<noteq> [ConfigFileName]) (map ((#) name) (filePaths n)) = map ((#) name) (filePaths n)"
        using notcfg by (simp add: filter_cfg_under)
      from notgit en w IH f show ?thesis
        by (simp add: picked_append)
    qed
  qed
qed

lemma gatherFiles_reached:
  assumes "tree e = Dir es" and "relOK e root"
  shows "gatherFiles e root cfg =
           Inr (picked e root cfg (filter (\<lambda>p. p \<noteq> [ConfigFileName]) (filePathsIn (reached es))))"
proof -
  from assms have r0: "filepath_Rel e root root = Inr ''.''"
    by (auto simp: relOK_def pathOf_def)
  then have g: "gatherFn e root cfg root True [] = (Nil, [])"
    by (simp add: gatherFn_def ConfigFileName_def)
  from assms have "\<forall>p \<in> set (pathsIn es). filepath_Rel e root (pathOf root p) = Inr (relName p)"
    by (simp add: relOK_def)
  from walkNames_top[OF this, of cfg "[]"]
  obtain r where "walkNames (gatherFn e root cfg) root es [] =
      (r, picked e root cfg (filter (\<lambda>p. p \<noteq> [ConfigFileName]) (filePathsIn (reached es))))"
    and "\<forall>err. r \<noteq> Fail err"
    by (cases "walkNames (gatherFn e root cfg) root es []") auto
  with g assms(1) show ?thesis
    by (cases r) (simp_all add: gatherFiles_def filepath_Walk_def)
qed

lemma reached_filter:
  "\<forall>en \<in> set es. fst en = ''.git'' \<longrightarrow> isDir (snd en) \<Longrightarrow>
   reached es = filter (\<lambda>en. fst en \<noteq> ''.git'') es"
  by (induction es) auto

lemma filePathsIn_filter:
  "filePathsIn (filter (\<lambda>en. fst en \<noteq> g) es) = filter (\<lambda>p. hd p \<noteq> g) (filePathsIn es)"
proof (induction es)
  case Nil
  then show ?case by simp
next
  case (Cons en es)
  obtain name n where en: "en = (name, n)" by (cases en)
  have "filter (\<lambda>p. hd p \<noteq> g) (map ((#) name) (filePaths n)) = (if name = g then [] else map ((#) name) (filePaths n))"
    by (induction "filePaths n") (auto simp: filter_map comp_def)
  with Cons en show ?case by simp
qed

lemma gatherFiles_each_file:
  assumes "tree e = Dir es" and "relOK e root"
    and "\<forall>en \<in> set es. fst en = ''.git'' \<longrightarrow> isDir (snd en)"
  shows "gatherFiles e root cfg =
           Inr (picked e root cfg (filter (\<lambda>p. p \<noteq> [ConfigFileName])
                  (filter (\<lambda>p. hd p \<noteq> ''.git'') (filePaths (tree e)))))"
  using gatherFiles_reached[OF assms(1,2), of cfg] reached_filter[OF assms(3)] assms(1)
  by (simp add: filePathsIn_filter del: filter_filter)

lemma reached_head: "p \<in> set (filePathsIn (reached es)) \<Longrightarrow> p \<noteq> [] \<and> hd p \<noteq> ''.git''"
proof (induction es)
  case Nil
  then show ?case by simp
next
  case (Cons en es)
  obtain name n where en: "en = (name, n)" by (cases en)
  with Cons show ?case by (auto split: if_splits)
qed

lemma reached_subset: "set (filePathsIn (reached es)) \<subseteq> set (filePathsIn es)"
proof (induction es)
  case Nil
  then show ?case by simp
next
  case (Cons en es)
  obtain name n where en: "en = (name, n)" by (cases en)
  with Cons show ?case by auto
qed

lemma walk_git_dir:
  assumes "filepath_Rel e root (filepath_Join root ''.git'') = Inr ''.git''"
  shows "walk (gatherFn e root cfg) (filepath_Join root ''.git'') (Dir sub) fs = (SkipDir, fs)"
  using assms by (simp add: gatherFn_def)

subsection \<open>Check\<close>









lemma loadConfigs_raw:
  "loadConfigs e root w =
     ((case contents e (filepath_Join root ConfigFileName) of
         Inl err \<Rightarrow> Inl err
       | Inr cfgBody \<Rightarrow>
           (case rawConfigs e cfgBody of
              Inl err \<Rightarrow> Inl err
            | Inr raws \<Rightarrow> toConfigs e raws)),
      w\<lparr>reads := reads w @ [filepath_Join root ConfigFileName]\<rparr>)"
  unfolding loadConfigs_def ioutil_ReadFile_def rawConfigs_def
  by (simp split: sum.splits)

lemma toConfigs_fails:
  "raw \<in> set raws \<Longrightarrow> toConfig e raw = Inl err \<Longrightarrow> \<exists>err'. toConfigs e raws = Inl err'"
  by (induction raws) (auto split: sum.splits)

lemma toConfig_only_conflict:
  "compiles e raw \<Longrightarrow> toConfig e raw = Inl err \<Longrightarrow>
   err = ''Rule cannot contain both include and exclude''"
  using unmarshalRules_only_conflict[of _ "New e" "[]" err]
  by (auto simp: compiles_def toConfig_def UnmarshalJSON_def split: option.splits sum.splits)

lemma toConfig_conflicts:
  assumes "conflicts e raw"
  shows "\<exists>err. toConfig e raw = Inl err"
proof -
  from assms obtain rbody p r where a: "rawPaths raw = Some rbody" "json_parsed e rbody = Inr p"
    "r \<in> set p" "conflicting r"
    by (auto simp: conflicts_def split: option.splits sum.splits)
  from unmarshalRules_conflict[OF a(3,4), of "New e" "[]"] a(1,2) show ?thesis
    by (auto simp: toConfig_def UnmarshalJSON_def)
qed

lemma toConfigs_only_conflict:
  "\<forall>raw \<in> set raws. compiles e raw \<Longrightarrow> toConfigs e raws = Inl err \<Longrightarrow>
   err = ''Rule cannot contain both include and exclude''"
proof (induction raws)
  case Nil
  then show ?case by simp
next
  case (Cons raw raws)
  then show ?case
    using toConfig_only_conflict[of e raw]
    by (auto split: sum.splits)
qed

lemma toConfigs_append_fail:
  "toConfigs e earlier = Inr cfgs \<Longrightarrow> toConfig e raw = Inl err \<Longrightarrow>
   toConfigs e (earlier @ raw # later) = Inl err"
  by (induction earlier arbitrary: cfgs) (auto split: sum.splits)

lemma Check_load_error:
  assumes "filepath_Abs e dir = Inr root" and "fst (loadConfigs e root w) = Inl err"
  shows "Check e dir w =
           (Some (''Failed to load config file: '' @ err),
            w\<lparr>reads := reads w @ [filepath_Join root ConfigFileName]\<rparr>)"
  using assms by (simp add: Check_def loadConfigs_raw)

section \<open>Properties of the checker\<close>

subsection \<open>Rule evaluation\<close>

text \<open>
  C1. Once the \<^verbatim>\<open>paths\<close> value has been unmarshalled and the relative path computed,
  \<^verbatim>\<open>shouldExamine\<close> is the left fold, starting from \<open>True\<close>, of \<open>decide\<close> over the
  declared rules in declaration order: an include rule one of whose patterns matches
  gives \<open>True\<close>, an exclude rule one of whose patterns matches gives \<open>False\<close>, any other
  rule leaves the decision as it is, and the last value is the result. With no rules the
  result is \<open>True\<close>.
\<close>

theorem shouldExamine_left_fold:
  assumes "json_parsed e body = Inr p"
    and "UnmarshalJSON e body = Inr (Paths c)"
    and "filepath_Rel e (filepath_ToSlash root) (filepath_ToSlash absPath) = Inr relPath"
  shows "shouldExamine e c root absPath = foldl (decide relPath) True (ruleSet (New e) p) \<and>
         shouldExamine e (c\<lparr>Paths := []\<rparr>) root absPath = True"
  using assms unmarshalRules_fold[of "New e" p "[]" "Paths c" relPath True]
  by (simp add: shouldExamine_def UnmarshalJSON_def)

theorem shouldExamine_left_fold_witness:
  "json_parsed (exampleEnv File) ''paths'' = Inr exampleParsed \<and>
   UnmarshalJSON (exampleEnv File) ''paths'' = Inr (Paths exampleConfig) \<and>
   filepath_Rel (exampleEnv File) (filepath_ToSlash ''/p'') (filepath_ToSlash ''/p/out/foo.txt'')
     = Inr ''out/foo.txt'' \<and>
   shouldExamine (exampleEnv File) exampleConfig ''/p'' ''/p/out/foo.txt''
     = foldl (decide ''out/foo.txt'') True (ruleSet (New (exampleEnv File)) exampleParsed) \<and>
   foldl (decide ''out/foo.txt'') True (ruleSet (New (exampleEnv File)) exampleParsed) = True \<and>
   foldl (decide ''out/bar.txt'') True (ruleSet (New (exampleEnv File)) exampleParsed) = False"
proof -
  have h1: "json_parsed (exampleEnv File) ''paths'' = Inr exampleParsed"
    by (simp add: exampleEnv_def)
  have h2: "UnmarshalJSON (exampleEnv File) ''paths'' = Inr (Paths exampleConfig)"
    by (rule example_unmarshal)
  have h3: "filepath_Rel (exampleEnv File) (filepath_ToSlash ''/p'') (filepath_ToSlash ''/p/out/foo.txt'')
      = Inr ''out/foo.txt''"
    by (simp add: exampleEnv_def exampleRel_def filepath_ToSlash_def)
  have v: "foldl (decide ''out/foo.txt'') True (ruleSet (New (exampleEnv File)) exampleParsed) = True"
    "foldl (decide ''out/bar.txt'') True (ruleSet (New (exampleEnv File)) exampleParsed) = False"
    by (simp_all add: exampleEnv_def exampleParsed_def compiled_def match_New_def)
  from shouldExamine_left_fold[OF h1 h2 h3] h1 h2 h3 v show ?thesis by simp
qed

text \<open>
  C9. When \<^verbatim>\<open>filepath.Rel\<close> fails on the path, \<^verbatim>\<open>shouldExamine\<close> returns false whatever
  the rules are, also when there are none.
\<close>

theorem shouldExamine_false_without_relative_path:
  assumes "filepath_Rel e (filepath_ToSlash root) (filepath_ToSlash absPath) = Inl err"
  shows "\<not> shouldExamine e c root absPath \<and> \<not> shouldExamine e (c\<lparr>Paths := []\<rparr>) root absPath"
  using assms by (simp add: shouldExamine_def)

theorem shouldExamine_false_without_relative_path_witness:
  "filepath_Rel (exampleEnv File) (filepath_ToSlash ''/p'') (filepath_ToSlash ''elsewhere'')
     = Inl ''Rel: cannot make elsewhere relative to /p'' \<and>
   \<not> shouldExamine (exampleEnv File) exampleConfig ''/p'' ''elsewhere'' \<and>
   \<not> shouldExamine (exampleEnv File) (exampleConfig\<lparr>Paths := []\<rparr>) ''/p'' ''elsewhere''"
proof -
  have h: "filepath_Rel (exampleEnv File) (filepath_ToSlash ''/p'') (filepath_ToSlash ''elsewhere'')
     = Inl ''Rel: cannot make elsewhere relative to /p''"
    by (simp add: exampleEnv_def exampleRel_def filepath_ToSlash_def)
  from shouldExamine_false_without_relative_path[OF h] h show ?thesis by simp
qed

subsection \<open>Patterns\<close>

text \<open>
  C6. In the pattern language of the match package a single \<^verbatim>\<open>*\<close> stands for any run of
  characters without a separator, \<^verbatim>\<open>**\<close> for any run of characters at all (the empty run
  included), and a pattern is matched against the whole path. This holds of every
  wildcard of every compiled pattern: wherever a \<^verbatim>\<open>*\<close> stands in the compiled pattern,
  the paths matched are those that split into a part the tokens before it match, a run
  without separator, and a part the tokens after it match; for \<^verbatim>\<open>**\<close> the run in the
  middle is any run. A \<^verbatim>\<open>*\<close> in the text that no neighbouring \<^verbatim>\<open>*\<close> pairs with compiles
  to the first wildcard and \<^verbatim>\<open>**\<close> to the second, and a pattern without wildcards
  matches itself alone. In particular a pattern \<open>l1*l2\<close> with plain text on both sides
  matches exactly the paths \<open>l1 @ mid @ l2\<close> with no separator in \<open>mid\<close>, and \<open>l1**l2\<close>
  exactly the paths \<open>l1 @ mid @ l2\<close>.
\<close>

theorem star_stays_within_a_segment:
  "(\<exists>test. match_New ''*'' = Inr test \<and> (\<forall>path. test path = (CHR ''/'' \<notin> set path))) \<and>
   (\<exists>test. match_New ''**'' = Inr test \<and> (\<forall>path. test path)) \<and>
   (\<forall>l1 l2. plain l1 \<and> plain l2 \<longrightarrow>
      (\<exists>test. match_New (l1 @ ''*'' @ l2) = Inr test \<and>
         (\<forall>path. test path = (\<exists>mid. path = l1 @ mid @ l2 \<and> CHR ''/'' \<notin> set mid)))) \<and>
   (\<forall>l1 l2. plain l1 \<and> plain l2 \<longrightarrow>
      (\<exists>test. match_New (l1 @ ''**'' @ l2) = Inr test \<and>
         (\<forall>path. test path = (\<exists>mid. path = l1 @ mid @ l2)))) \<and>
   (\<forall>pattern pre post. scan pattern = pre @ Star # post \<longrightarrow>
      (\<exists>test. match_New pattern = Inr test \<and>
         (\<forall>path. test path =
            (\<exists>a b c. path = a @ b @ c \<and> matches pre a \<and> CHR ''/'' \<notin> set b \<and> matches post c)))) \<and>
   (\<forall>pattern pre post. scan pattern = pre @ StarStar # post \<longrightarrow>
      (\<exists>test. match_New pattern = Inr test \<and>
         (\<forall>path. test path = (\<exists>a b c. path = a @ b @ c \<and> matches pre a \<and> matches post c)))) \<and>
   (\<forall>p1 p2. complete p1 \<and> (p2 = [] \<or> hd p2 \<noteq> CHR ''*'') \<longrightarrow>
      scan (p1 @ ''*'' @ p2) = scan p1 @ Star # scan p2) \<and>
   (\<forall>p1 p2. complete p1 \<longrightarrow> scan (p1 @ ''**'' @ p2) = scan p1 @ StarStar # scan p2) \<and>
   (\<forall>pattern. plain pattern \<longrightarrow>
      (\<exists>test. match_New pattern = Inr test \<and> (\<forall>path. test path = (path = pattern))))"
proof -
  have a: "\<forall>path. matches (scan ''*'') path = (CHR ''/'' \<notin> set path)"
    by (simp add: matches_Star)
  have b: "\<forall>path. matches (scan ''**'') path"
    by (simp add: matches_StarStar)
  have c: "matches (scan (l1 @ ''*'' @ l2)) path = (\<exists>mid. path = l1 @ mid @ l2 \<and> CHR ''/'' \<notin> set mid)"
    if "plain l1" "plain l2" for l1 l2 path
  proof -
    have "matches (map Lit l1 @ [Star] @ map Lit l2) path =
          (\<exists>a b. path = a @ b \<and> a = l1 \<and> (\<exists>m c. b = m @ c \<and> CHR ''/'' \<notin> set m \<and> c = l2))"
      by (simp only: matches_append matches_Lit matches_Star)
    with scan_star[OF that] show ?thesis by auto
  qed
  have d: "matches (scan (l1 @ ''**'' @ l2)) path = (\<exists>mid. path = l1 @ mid @ l2)"
    if "plain l1" "plain l2" for l1 l2 path
  proof -
    have "matches (map Lit l1 @ [StarStar] @ map Lit l2) path =
          (\<exists>a b. path = a @ b \<and> a = l1 \<and> (\<exists>m c. b = m @ c \<and> True \<and> c = l2))"
      by (simp only: matches_append matches_Lit matches_StarStar)
    with scan_starstar[OF that] show ?thesis by auto
  qed
  have f: "matches (scan pattern) path =
      (\<exists>a b c. path = a @ b @ c \<and> matches pre a \<and> CHR ''/'' \<notin> set b \<and> matches post c)"
    if "scan pattern = pre @ Star # post" for pattern pre post path
    unfolding that by (rule matches_at_Star)
  have g: "matches (scan pattern) path = (\<exists>a b c. path = a @ b @ c \<and> matches pre a \<and> matches post c)"
    if "scan pattern = pre @ StarStar # post" for pattern pre post path
    unfolding that by (rule matches_at_StarStar)
  have h: "scan (p1 @ ''*'' @ p2) = scan p1 @ Star # scan p2"
    if "complete p1 \<and> (p2 = [] \<or> hd p2 \<noteq> CHR ''*'')" for p1 p2
    using that by (intro scan_star_at) simp_all
  have i: "scan (p1 @ ''**'' @ p2) = scan p1 @ StarStar # scan p2" if "complete p1" for p1 p2
    using that by (rule scan_starstar_at)
  have j: "matches (scan pattern) path = (path = pattern)" if "plain pattern" for pattern path
    by (simp add: scan_plain[OF that] matches_Lit)
  have one: "\<exists>test. match_New ''*'' = Inr test \<and> (\<forall>path. test path = (CHR ''/'' \<notin> set path))"
    using a by (simp add: match_New_def)
  have two: "\<exists>test. match_New ''**'' = Inr test \<and> (\<forall>path. test path)"
    using b by (simp add: match_New_def)
  show ?thesis
  proof (intro conjI allI impI)
    show "\<exists>test. match_New ''*'' = Inr test \<and> (\<forall>path. test path = (CHR ''/'' \<notin> set path))"
      by (rule one)
    show "\<exists>test. match_New ''**'' = Inr test \<and> (\<forall>path. test path)"
      by (rule two)
  next
    fix l1 l2 assume "plain l1 \<and> plain l2"
    then show "\<exists>test. match_New (l1 @ ''*'' @ l2) = Inr test \<and>
         (\<forall>path. test path = (\<exists>mid. path = l1 @ mid @ l2 \<and> CHR ''/'' \<notin> set mid))"
      using c by (simp add: match_New_def)
  next
    fix l1 l2 assume "plain l1 \<and> plain l2"
    then show "\<exists>test. match_New (l1 @ ''**'' @ l2) = Inr test \<and>
         (\<forall>path. test path = (\<exists>mid. path = l1 @ mid @ l2))"
      using d by (simp add: match_New_def)
  next
    fix pattern pre post assume s: "scan pattern = pre @ Star # post"
    show "\<exists>test. match_New pattern = Inr test \<and>
         (\<forall>path. test path =
            (\<exists>a b c. path = a @ b @ c \<and> matches pre a \<and> CHR ''/'' \<notin> set b \<and> matches post c))"
      unfolding match_New_def using f[OF s] by simp
  next
    fix pattern pre post assume s: "scan pattern = pre @ StarStar # post"
    show "\<exists>test. match_New pattern = Inr test \<and>
         (\<forall>path. test path = (\<exists>a b c. path = a @ b @ c \<and> matches pre a \<and> matches post c))"
      unfolding match_New_def using g[OF s] by simp
  next
    fix p1 p2 :: string assume "complete p1 \<and> (p2 = [] \<or> hd p2 \<noteq> CHR ''*'')"
    then show "scan (p1 @ ''*'' @ p2) = scan p1 @ Star # scan p2" by (rule h)
  next
    fix p1 p2 :: string assume "complete p1"
    then show "scan (p1 @ ''**'' @ p2) = scan p1 @ StarStar # scan p2" by (rule i)
  next
    fix pattern assume "plain pattern"
    then show "\<exists>test. match_New pattern = Inr test \<and> (\<forall>path. test path = (path = pattern))"
      using j by (simp add: match_New_def)
  qed
qed

theorem star_stays_within_a_segment_witness:
  "plain ''out/'' \<and> plain ''.txt'' \<and>
   (\<exists>test. match_New (''out/'' @ ''*'' @ ''.txt'') = Inr test \<and>
      test ''out/foo.txt'' \<and> \<not> test ''out/sub/foo.txt'' \<and> \<not> test ''more/out/foo.txt'') \<and>
   (\<exists>test. match_New (''out/'' @ ''**'' @ ''.txt'') = Inr test \<and>
      test ''out/foo.txt'' \<and> test ''out/sub/foo.txt'' \<and> test ''out/.txt'' \<and>
      \<not> test ''more/out/foo.txt'') \<and>
   complete ''*/lib/'' \<and>
   scan (''*/lib/'' @ ''*'' @ []) = scan ''*/lib/'' @ Star # scan [] \<and>
   (\<exists>test. match_New (''*/lib/'' @ ''*'' @ []) = Inr test \<and>
      test ''a/lib/b'' \<and> test ''/lib/'' \<and> \<not> test ''a/x/lib/b'' \<and> \<not> test ''a/lib/b/c'') \<and>
   complete ''src/'' \<and>
   scan (''src/'' @ ''**'' @ ''/*.go'') = scan ''src/'' @ StarStar # scan ''/*.go'' \<and>
   (\<exists>test. match_New (''src/'' @ ''**'' @ ''/*.go'') = Inr test \<and>
      test ''src/a/b/c.go'' \<and> test ''src//c.go'' \<and> \<not> test ''src/c.go'' \<and> \<not> test ''lib/src/a/c.go'')"
proof -
  note T = star_stays_within_a_segment
  have p: "plain ''out/''" "plain ''.txt''" by (simp_all add: plain_def)
  note one = T[THEN conjunct2, THEN conjunct2, THEN conjunct1,
      rule_format, OF conjI[OF p]]
  note two = T[THEN conjunct2, THEN conjunct2, THEN conjunct2, THEN conjunct1,
      rule_format, OF conjI[OF p]]
  from one obtain t1 where t1: "match_New (''out/'' @ ''*'' @ ''.txt'') = Inr t1"
    by (elim exE conjE)
  from two obtain t2 where t2: "match_New (''out/'' @ ''**'' @ ''.txt'') = Inr t2"
    by (elim exE conjE)
  from t1 have e1: "t1 = matches (scan ''out/*.txt'')" by (simp add: match_New_def)
  from t2 have e2: "t2 = matches (scan ''out/**.txt'')" by (simp add: match_New_def)
  have v1: "t1 ''out/foo.txt'' \<and> \<not> t1 ''out/sub/foo.txt'' \<and> \<not> t1 ''more/out/foo.txt''"
    unfolding e1 by simp
  have v2: "t2 ''out/foo.txt'' \<and> t2 ''out/sub/foo.txt'' \<and> t2 ''out/.txt'' \<and>
      \<not> t2 ''more/out/foo.txt''"
    unfolding e2 by simp
  have a: "\<exists>test. match_New (''out/'' @ ''*'' @ ''.txt'') = Inr test \<and>
      test ''out/foo.txt'' \<and> \<not> test ''out/sub/foo.txt'' \<and> \<not> test ''more/out/foo.txt''"
    by (rule exI[of _ t1]) (rule conjI[OF t1 v1])
  have b: "\<exists>test. match_New (''out/'' @ ''**'' @ ''.txt'') = Inr test \<and>
      test ''out/foo.txt'' \<and> test ''out/sub/foo.txt'' \<and> test ''out/.txt'' \<and>
      \<not> test ''more/out/foo.txt''"
    by (rule exI[of _ t2]) (rule conjI[OF t2 v2])
  have c3: "complete ''*/lib/''" by (simp add: complete_def)
  have "complete ''*/lib/'' \<and> (([]::string) = [] \<or> hd ([]::string) \<noteq> CHR ''*'')"
    using c3 by simp
  note s3 = T[THEN conjunct2, THEN conjunct2, THEN conjunct2, THEN conjunct2, THEN conjunct2,
      THEN conjunct2, THEN conjunct1, rule_format, OF this]
  note three = T[THEN conjunct2, THEN conjunct2, THEN conjunct2, THEN conjunct2, THEN conjunct1,
      rule_format, OF s3]
  from three obtain t3 where t3: "match_New (''*/lib/'' @ ''*'' @ []) = Inr t3"
    by (elim exE conjE)
  from t3 have e3: "t3 = matches (scan ''*/lib/*'')" by (simp add: match_New_def)
  have v3: "t3 ''a/lib/b'' \<and> t3 ''/lib/'' \<and> \<not> t3 ''a/x/lib/b'' \<and> \<not> t3 ''a/lib/b/c''"
    unfolding e3 by simp
  have c: "\<exists>test. match_New (''*/lib/'' @ ''*'' @ []) = Inr test \<and>
      test ''a/lib/b'' \<and> test ''/lib/'' \<and> \<not> test ''a/x/lib/b'' \<and> \<not> test ''a/lib/b/c''"
    by (rule exI[of _ t3]) (rule conjI[OF t3 v3])
  have c4: "complete ''src/''" by (simp add: complete_def)
  note s4 = T[THEN conjunct2, THEN conjunct2, THEN conjunct2, THEN conjunct2, THEN conjunct2,
      THEN conjunct2, THEN conjunct2, THEN conjunct1, rule_format, OF c4, of "''/*.go''"]
  note four = T[THEN conjunct2, THEN conjunct2, THEN conjunct2, THEN conjunct2, THEN conjunct2,
      THEN conjunct1, rule_format, OF s4]
  from four obtain t4 where t4: "match_New (''src/'' @ ''**'' @ ''/*.go'') = Inr t4"
    by (elim exE conjE)
  from t4 have e4: "t4 = matches (scan ''src/**/*.go'')" by (simp add: match_New_def)
  have v4: "t4 ''src/a/b/c.go'' \<and> t4 ''src//c.go'' \<and> \<not> t4 ''src/c.go'' \<and> \<not> t4 ''lib/src/a/c.go''"
    unfolding e4 by simp
  have d: "\<exists>test. match_New (''src/'' @ ''**'' @ ''/*.go'') = Inr test \<and>
      test ''src/a/b/c.go'' \<and> test ''src//c.go'' \<and> \<not> test ''src/c.go'' \<and> \<not> test ''lib/src/a/c.go''"
    by (rule exI[of _ t4]) (rule conjI[OF t4 v4])
  show ?thesis by (intro conjI p a b c3 s3 c c4 s4 d)
qed

subsection \<open>The walk\<close>

text \<open>
  C8. Whatever the rules, the files \<^verbatim>\<open>gatherFiles\<close> returns never include the
  configuration file of the root, nor \<^verbatim>\<open>.git\<close>, nor anything below \<^verbatim>\<open>.git\<close>: on the
  directory \<^verbatim>\<open>.git\<close> of the root the walk function returns \<^verbatim>\<open>SkipDir\<close>, and the walk
  goes on without calling it on any entry of that directory. The tree is a directory
  whose entries \<^verbatim>\<open>filepath.Rel\<close> names relative to the root, and no name in the root
  holds a separator.
\<close>

theorem reserved_entries_never_selected:
  assumes "tree e = Dir es" and "relOK e root"
    and "\<forall>en \<in> set es. CHR ''/'' \<notin> set (fst en)"
    and "gatherFiles e root cfg = Inr files"
  shows "ConfigFileName \<notin> set files \<and> ''.git'' \<notin> set files \<and>
         (\<forall>f \<in> set files. \<not> prefix ''.git/'' f) \<and>
         (\<forall>sub fs. (''.git'', Dir sub) \<in> set es \<longrightarrow>
            walk (gatherFn e root cfg) (filepath_Join root ''.git'') (Dir sub) fs = (SkipDir, fs))"
proof -
  from gatherFiles_reached[OF assms(1,2), of cfg] assms(4)
  have files: "files = picked e root cfg (filter (\<lambda>p. p \<noteq> [ConfigFileName]) (filePathsIn (reached es)))"
    by simp
  have each: "\<exists>p. f = relName p \<and> p \<in> set (filePathsIn (reached es)) \<and> p \<noteq> [ConfigFileName]"
    if "f \<in> set files" for f
    using that by (auto simp: files picked_def)
  have a: "ConfigFileName \<notin> set files"
  proof
    assume "ConfigFileName \<in> set files"
    from each[OF this] obtain p where p: "ConfigFileName = relName p"
      "p \<in> set (filePathsIn (reached es))" "p \<noteq> [ConfigFileName]" by blast
    from reached_head[OF p(2)] have "p \<noteq> []" by simp
    from relName_not_cfg[OF this p(3)] p(1) show False by simp
  qed
  have b: "''.git'' \<notin> set files"
  proof
    assume "''.git'' \<in> set files"
    from each[OF this] obtain p where p: "''.git'' = relName p"
      "p \<in> set (filePathsIn (reached es))" by blast
    from reached_head[OF p(2)] have "p \<noteq> []" "hd p \<noteq> ''.git''" by simp_all
    then have "relName p \<noteq> ''.git''" by (rule relName_top) simp
    with p(1) show False by simp
  qed
  have c: "\<not> prefix ''.git/'' f" if "f \<in> set files" for f
  proof
    assume pre: "prefix ''.git/'' f"
    from each[OF that] obtain p where p: "f = relName p"
      "p \<in> set (filePathsIn (reached es))" by blast
    from reached_head[OF p(2)] have ne: "p \<noteq> []" and hd: "hd p \<noteq> ''.git''" by simp_all
    from p(2) reached_subset have "p \<in> set (filePathsIn es)" by blast
    from filePathsIn_head[OF this] assms(3) have sl: "CHR ''/'' \<notin> set (hd p)" by auto
    from ne obtain name ms where nm: "p = name # ms" by (cases p) auto
    from pre p(1) nm have "prefix (''.git'' @ ''/'') (relName (name # ms))" by simp
    from first_segment[OF _ this] sl nm have "name = ''.git''" by simp
    with hd nm show False by simp
  qed
  have d: "walk (gatherFn e root cfg) (filepath_Join root ''.git'') (Dir sub) fs = (SkipDir, fs)"
    if "(''.git'', Dir sub) \<in> set es" for sub fs
  proof -
    have "[''.git''] \<in> set (pathsIn es)" using that
    proof (induction es)
      case Nil
      then show ?case by simp
    next
      case (Cons en es)
      obtain name n where en: "en = (name, n)" by (cases en)
      with Cons show ?case by (cases n) auto
    qed
    with assms(1,2) have "filepath_Rel e root (pathOf root [''.git'']) = Inr (relName [''.git''])"
      by (simp add: relOK_def)
    then show ?thesis by (intro walk_git_dir) (simp add: pathOf_def)
  qed
  from a b c d show ?thesis by blast
qed

theorem reserved_entries_never_selected_witness:
  "tree (exampleEnv (Dir [(''HEAD'', File)])) = exampleTree (Dir [(''HEAD'', File)]) \<and>
   relOK (exampleEnv (Dir [(''HEAD'', File)])) ''/p'' \<and>
   gatherFiles (exampleEnv (Dir [(''HEAD'', File)])) ''/p'' includeAll
     = Inr [''build/x'', ''out/bar.txt'', ''out/foo.txt''] \<and>
   ConfigFileName \<notin> set [''build/x'', ''out/bar.txt'', ''out/foo.txt''] \<and>
   ''.git'' \<notin> set [''build/x'', ''out/bar.txt'', ''out/foo.txt''] \<and>
   \<not> prefix ''.git/'' ''build/x'' \<and>
   walk (gatherFn (exampleEnv (Dir [(''HEAD'', File)])) ''/p'' includeAll)
      (filepath_Join ''/p'' ''.git'') (Dir [(''HEAD'', File)]) [] = (SkipDir, [])"
proof -
  let ?e = "exampleEnv (Dir [(''HEAD'', File)])"
  let ?es = "[(''.git'', Dir [(''HEAD'', File)]),
              (''build'', Dir [(''x'', File)]),
              (''license-checker.cfg'', File),
              (''out'', Dir [(''bar.txt'', File), (''foo.txt'', File)])]"
  have h0: "tree ?e = exampleTree (Dir [(''HEAD'', File)])" by (simp add: exampleEnv_def)
  have h1: "tree ?e = Dir ?es" by (simp add: exampleEnv_def exampleTree_def)
  have h2: "relOK ?e ''/p''"
    by (simp add: relOK_def exampleEnv_def exampleTree_def pathOf_def filepath_Join_def exampleRel_def)
  have h3: "\<forall>en \<in> set ?es. CHR ''/'' \<notin> set (fst en)" by simp
  have h4: "gatherFiles ?e ''/p'' includeAll = Inr [''build/x'', ''out/bar.txt'', ''out/foo.txt'']"
    by (simp add: gatherFiles_def filepath_Walk_def gatherFn_def filepath_Join_def shouldExamine_def
        exampleEnv_def exampleTree_def exampleRel_def includeAll_def
        filepath_ToSlash_def ConfigFileName_def)
  note T = reserved_entries_never_selected[OF h1 h2 h3 h4]
  note a = T[THEN conjunct1]
  note b = T[THEN conjunct2, THEN conjunct1]
  from T[THEN conjunct2, THEN conjunct2, THEN conjunct1]
  have c: "\<not> prefix ''.git/'' ''build/x''" by simp
  have "(''.git'', Dir [(''HEAD'', File)]) \<in> set ?es" by simp
  from T[THEN conjunct2, THEN conjunct2, THEN conjunct2, rule_format, OF this]
  have d: "walk (gatherFn ?e ''/p'' includeAll) (filepath_Join ''/p'' ''.git'') (Dir [(''HEAD'', File)]) []
             = (SkipDir, [])" .
  show ?thesis by (intro conjI h0 h2 h4 a b c d)
qed

text \<open>
  Outside \<^verbatim>\<open>.git\<close> the walk prunes nothing: as long as no entry of the root named
  \<^verbatim>\<open>.git\<close> is a file, every file of the tree other than the configuration file is
  judged by \<^verbatim>\<open>shouldExamine\<close> on its own path, whatever \<^verbatim>\<open>shouldExamine\<close> says of the
  directories above it, and the files kept are returned in the order of the walk.
\<close>

lemma gatherFiles_judges_each_file:
  assumes "tree e = Dir es" and "relOK e root"
    and "\<forall>en \<in> set es. fst en = ''.git'' \<longrightarrow> isDir (snd en)"
  shows "gatherFiles e root cfg =
           Inr (map relName
                  (filter (\<lambda>p. shouldExamine e cfg root (pathOf root p))
                     (filter (\<lambda>p. p \<noteq> [ConfigFileName])
                        (filter (\<lambda>p. hd p \<noteq> ''.git'') (filePaths (tree e))))))"
  using gatherFiles_each_file[OF assms] by (simp only: picked_def)

text \<open>
  C2. With the rules of the README (exclude \<^verbatim>\<open>out/*\<close> and \<^verbatim>\<open>build/*\<close>, then include
  \<^verbatim>\<open>out/foo.txt\<close>) and a tree holding \<^verbatim>\<open>out/foo.txt\<close>, \<^verbatim>\<open>out/bar.txt\<close> and \<^verbatim>\<open>build/x\<close>,
  the files gathered are \<^verbatim>\<open>out/foo.txt\<close> alone when \<^verbatim>\<open>.git\<close> is a directory, and they
  are the same when the rules exclude the directory \<^verbatim>\<open>out\<close> itself: the walk goes into
  it all the same. When \<^verbatim>\<open>.git\<close> is a file, as it is in a submodule or a linked
  worktree, the walk function returns \<^verbatim>\<open>SkipDir\<close> on a file, \<^verbatim>\<open>filepath.Walk\<close> leaves
  the rest of the root unvisited, and nothing is gathered although \<^verbatim>\<open>shouldExamine\<close>
  accepts \<^verbatim>\<open>out/foo.txt\<close>.
\<close>

theorem git_file_ends_the_walk:
  "gatherFiles (exampleEnv (Dir [(''HEAD'', File)])) ''/p'' exampleConfig = Inr [''out/foo.txt''] \<and>
   \<not> shouldExamine (exampleEnv (Dir [(''HEAD'', File)])) excludedDirConfig ''/p'' ''/p/out'' \<and>
   gatherFiles (exampleEnv (Dir [(''HEAD'', File)])) ''/p'' excludedDirConfig = Inr [''out/foo.txt''] \<and>
   shouldExamine (exampleEnv File) exampleConfig ''/p'' ''/p/out/foo.txt'' \<and>
   gatherFiles (exampleEnv File) ''/p'' exampleConfig = Inr [] \<and>
   shouldExamine (exampleEnv File) excludedDirConfig ''/p'' ''/p/out/foo.txt'' \<and>
   gatherFiles (exampleEnv File) ''/p'' excludedDirConfig = Inr []"
  by (simp add: gatherFiles_def filepath_Walk_def gatherFn_def filepath_Join_def shouldExamine_def
      exampleEnv_def exampleTree_def exampleRel_def exampleConfig_def excludedDirConfig_def
      filepath_ToSlash_def ConfigFileName_def)

subsection \<open>Examining one file\<close>

text \<open>
  C4. \<^verbatim>\<open>examine\<close> returns the error of exactly one of four results: a failed read gives
  the read failure of that file; a read on which the scan reports no match gives the
  missing license; otherwise the first detected identifier that is not permitted gives
  the unsupported license naming it, the identifiers after it unchecked; and when every
  detected identifier is permitted the result is \<^verbatim>\<open>nil\<close>. A failure stays in its own
  slot: once every goroutine has finished, the slots hold the results of all the files.
\<close>

theorem examine_four_outcomes:
  "fst (examine e root path cfg w) = report (classify e root path (Licenses cfg)) \<and>
   (mset (completion e files) = mset [0..<length files] \<longrightarrow>
      fst (scanFiles e root cfg files w) =
        map (\<lambda>file. report (classify e root file (Licenses cfg))) files)"
proof (intro conjI impI)
  show "fst (examine e root path cfg w) = report (classify e root path (Licenses cfg))"
    by (rule examine_fst)
next
  assume "mset (completion e files) = mset [0..<length files]"
  then have "set (completion e files) = set [0..<length files]" by (rule mset_eq_setD)
  then have "set (completion e files) = {..<length files}" by (simp add: lessThan_atLeast0)
  from scanFiles_slots[OF this]
  show "fst (scanFiles e root cfg files w) =
          map (\<lambda>file. report (classify e root file (Licenses cfg))) files"
    by (simp add: verdict_def[abs_def])
qed

theorem examine_four_outcomes_witness:
  "mset (completion (exampleEnv File) [''out/bar.txt'', ''build/x'', ''out/foo.txt''])
     = mset [0..<length [''out/bar.txt'', ''build/x'', ''out/foo.txt'']] \<and>
   fst (scanFiles (exampleEnv File) ''/p'' exampleConfig
          [''out/bar.txt'', ''build/x'', ''out/foo.txt''] world0) =
     [Some ''out/bar.txt has no license'',
      Some (''Failed to read file '' @ quote @ ''build/x'' @ quote @ '': open /p/build/x: permission denied''),
      None] \<and>
   fst (examine (exampleEnv File) ''/p'' ''out/foo.txt'' (exampleConfig\<lparr>Licenses := [''BSD'']\<rparr>) world0) =
     Some (''out/foo.txt uses unsupported license '' @ quote @ ''MIT'' @ quote)"
proof -
  let ?files = "[''out/bar.txt'', ''build/x'', ''out/foo.txt'']"
  have h: "mset (completion (exampleEnv File) ?files) = mset [0..<length ?files]"
    by (simp add: exampleEnv_def)
  from examine_four_outcomes[of "exampleEnv File" "''/p''" "''out/foo.txt''" exampleConfig world0 ?files] h
  have "fst (scanFiles (exampleEnv File) ''/p'' exampleConfig ?files world0) =
          map (\<lambda>file. report (classify (exampleEnv File) ''/p'' file (Licenses exampleConfig))) ?files"
    by simp
  moreover
  from examine_four_outcomes[of "exampleEnv File" "''/p''" "''out/foo.txt''"
      "exampleConfig\<lparr>Licenses := [''BSD'']\<rparr>" world0 "[]"]
  have "fst (examine (exampleEnv File) ''/p'' ''out/foo.txt'' (exampleConfig\<lparr>Licenses := [''BSD'']\<rparr>) world0) =
          report (classify (exampleEnv File) ''/p'' ''out/foo.txt'' [''BSD''])"
    by simp
  ultimately show ?thesis using h
    by (simp add: classify_def exampleEnv_def exampleConfig_def filepath_Join_def)
qed

text \<open>
  C10. With an empty list of permitted licenses \<^verbatim>\<open>allowsLicense\<close> is false for every
  identifier and no file passes: a file that is read and has a detected license is
  reported for the first one detected, a file that is read and has none is reported as
  having no license.
\<close>

theorem empty_license_list_rejects_all:
  assumes "Licenses cfg = []"
  shows "\<not> allowsLicense cfg name \<and>
         fst (examine e root path cfg w) \<noteq> None \<and>
         (case contents e (filepath_Join root path) of
            Inl err \<Rightarrow> True
          | Inr body \<Rightarrow>
              fst (examine e root path cfg w) =
                (case licensecheck_Scan e body of
                   [] \<Rightarrow> Some (path @ '' has no license'')
                 | ident # later \<Rightarrow> Some (path @ '' uses unsupported license '' @ quote @ ident @ quote)))"
  using assms
  by (auto simp: allowsLicense_def examine_fst classify_def split: sum.splits list.splits)

theorem empty_license_list_rejects_all_witness:
  "Licenses (exampleConfig\<lparr>Licenses := []\<rparr>) = [] \<and>
   \<not> allowsLicense (exampleConfig\<lparr>Licenses := []\<rparr>) ''MIT'' \<and>
   fst (examine (exampleEnv File) ''/p'' ''out/foo.txt'' (exampleConfig\<lparr>Licenses := []\<rparr>) world0) =
     Some (''out/foo.txt uses unsupported license '' @ quote @ ''MIT'' @ quote) \<and>
   fst (examine (exampleEnv File) ''/p'' ''out/bar.txt'' (exampleConfig\<lparr>Licenses := []\<rparr>) world0) =
     Some ''out/bar.txt has no license''"
proof -
  let ?cfg = "exampleConfig\<lparr>Licenses := []\<rparr>"
  have h: "Licenses ?cfg = []" by simp
  from empty_license_list_rejects_all[OF h, of "''MIT''" "exampleEnv File" "''/p''" "''out/foo.txt''" world0]
  have a: "\<not> allowsLicense ?cfg ''MIT''"
    and b: "fst (examine (exampleEnv File) ''/p'' ''out/foo.txt'' ?cfg world0) =
              Some (''out/foo.txt uses unsupported license '' @ quote @ ''MIT'' @ quote)"
    by (simp_all add: exampleEnv_def filepath_Join_def)
  from empty_license_list_rejects_all[OF h, of "''MIT''" "exampleEnv File" "''/p''" "''out/bar.txt''" world0]
  have c: "fst (examine (exampleEnv File) ''/p'' ''out/bar.txt'' ?cfg world0) =
              Some ''out/bar.txt has no license''"
    by (simp add: exampleEnv_def filepath_Join_def)
  from h a b c show ?thesis by blast
qed

subsection \<open>The concurrent scan\<close>

text \<open>
  C3. Whatever the order in which the goroutines finish, as long as each of them does,
  the array \<^verbatim>\<open>errs\<close> of \<^verbatim>\<open>runConfig\<close> is the one the sequential scan produces: slot
  \<open>i\<close> holds the result of examining \<^verbatim>\<open>files[i]\<close>, and the errors \<^verbatim>\<open>runConfig\<close> returns
  are those of the slots that are not \<^verbatim>\<open>nil\<close>, by increasing index.
\<close>

theorem scan_is_order_independent:
  assumes "mset (completion e files) = mset [0..<length files]"
  shows "fst (scanFiles e root cfg files w) = fst (scanSequential e root cfg files w) \<and>
         length (fst (scanFiles e root cfg files w)) = length files \<and>
         (\<forall>i<length files. fst (scanFiles e root cfg files w) ! i = fst (examine e root (files ! i) cfg v)) \<and>
         (gatherFiles e root cfg = Inr files \<longrightarrow>
            fst (runConfig e cfg root w) =
              map (\<lambda>i. the (fst (scanSequential e root cfg files w) ! i))
                (filter (\<lambda>i. fst (scanSequential e root cfg files w) ! i \<noteq> None) [0..<length files]))"
proof -
  from assms have "set (completion e files) = set [0..<length files]" by (rule mset_eq_setD)
  then have s: "set (completion e files) = {..<length files}" by (simp add: lessThan_atLeast0)
  have slots: "fst (scanFiles e root cfg files w') = map (verdict e root cfg) files" for w'
    by (rule scanFiles_slots[OF s])
  have a: "fst (scanFiles e root cfg files w) = fst (scanSequential e root cfg files w)"
    by (simp add: slots scanSequential_fst)
  have b: "length (fst (scanFiles e root cfg files w)) = length files"
    by (simp add: slots)
  have c: "\<forall>i<length files. fst (scanFiles e root cfg files w) ! i = fst (examine e root (files ! i) cfg v)"
    by (simp add: slots examine_fst verdict_def)
  have d: "fst (runConfig e cfg root w) =
             map (\<lambda>i. the (fst (scanSequential e root cfg files w) ! i))
               (filter (\<lambda>i. fst (scanSequential e root cfg files w) ! i \<noteq> None) [0..<length files])"
    if g: "gatherFiles e root cfg = Inr files"
  proof -
    have "fst (runConfig e cfg root w) = removeNilErrs (map (verdict e root cfg) files)"
      using g by (simp add: runConfig_def case_prod_beta slots)
    also have "\<dots> = map the (filter (\<lambda>x. x \<noteq> None) (map (verdict e root cfg) files))"
      by (rule removeNilErrs_filter)
    also have "\<dots> = map (\<lambda>i. the (map (verdict e root cfg) files ! i))
               (filter (\<lambda>i. map (verdict e root cfg) files ! i \<noteq> None) [0..<length (map (verdict e root cfg) files)])"
      by (rule nth_survivors)
    finally show ?thesis by (simp add: scanSequential_fst)
  qed
  from a b c d show ?thesis by blast
qed

theorem scan_is_order_independent_witness:
  "mset (completion exampleEnv2 [''build/x'', ''out/bar.txt'', ''out/foo.txt''])
     = mset [0..<length [''build/x'', ''out/bar.txt'', ''out/foo.txt'']] \<and>
   completion exampleEnv2 [''build/x'', ''out/bar.txt'', ''out/foo.txt''] = [2, 1, 0] \<and>
   gatherFiles exampleEnv2 ''/p'' openConfig = Inr [''build/x'', ''out/bar.txt'', ''out/foo.txt''] \<and>
   fst (scanFiles exampleEnv2 ''/p'' openConfig [''build/x'', ''out/bar.txt'', ''out/foo.txt''] world0)
     = fst (scanSequential exampleEnv2 ''/p'' openConfig [''build/x'', ''out/bar.txt'', ''out/foo.txt''] world0) \<and>
   fst (scanSequential exampleEnv2 ''/p'' openConfig [''build/x'', ''out/bar.txt'', ''out/foo.txt''] world0)
     = [Some (''Failed to read file '' @ quote @ ''build/x'' @ quote @ '': open /p/build/x: permission denied''),
        Some ''out/bar.txt has no license'',
        None] \<and>
   fst (runConfig exampleEnv2 openConfig ''/p'' world0)
     = [''Failed to read file '' @ quote @ ''build/x'' @ quote @ '': open /p/build/x: permission denied'',
        ''out/bar.txt has no license'']"
proof -
  let ?files = "[''build/x'', ''out/bar.txt'', ''out/foo.txt'']"
  have h: "mset (completion exampleEnv2 ?files) = mset [0..<length ?files]"
    by (simp add: exampleEnv2_def exampleEnv_def)
  have o: "completion exampleEnv2 ?files = [2, 1, 0]"
    by (simp add: exampleEnv2_def exampleEnv_def upt_rec)
  have g: "gatherFiles exampleEnv2 ''/p'' openConfig = Inr ?files"
    by (simp add: gatherFiles_def filepath_Walk_def gatherFn_def filepath_Join_def shouldExamine_def
        exampleEnv2_def exampleEnv_def exampleTree_def exampleRel_def openConfig_def
        filepath_ToSlash_def ConfigFileName_def)
  have s: "fst (scanSequential exampleEnv2 ''/p'' openConfig ?files world0) =
      [Some (''Failed to read file '' @ quote @ ''build/x'' @ quote @ '': open /p/build/x: permission denied''),
       Some ''out/bar.txt has no license'', None]"
    by (simp only: scanSequential_fst)
       (simp add: verdict_def classify_def exampleEnv2_def exampleEnv_def
        openConfig_def filepath_Join_def)
  from scan_is_order_independent[OF h, of "''/p''" openConfig world0 world0] g
  have a: "fst (scanFiles exampleEnv2 ''/p'' openConfig ?files world0)
             = fst (scanSequential exampleEnv2 ''/p'' openConfig ?files world0)"
    and r: "fst (runConfig exampleEnv2 openConfig ''/p'' world0) =
              map (\<lambda>i. the (fst (scanSequential exampleEnv2 ''/p'' openConfig ?files world0) ! i))
                (filter (\<lambda>i. fst (scanSequential exampleEnv2 ''/p'' openConfig ?files world0) ! i \<noteq> None)
                   [0..<length ?files])"
    by blast+
  from r have "fst (runConfig exampleEnv2 openConfig ''/p'' world0)
     = [''Failed to read file '' @ quote @ ''build/x'' @ quote @ '': open /p/build/x: permission denied'',
        ''out/bar.txt has no license'']"
    unfolding s by (simp add: upt_rec)
  with h o g a s show ?thesis by blast
qed

subsection \<open>The run\<close>



text \<open>
  C7. A configuration that cannot be loaded ends the run before any file is scanned:
  \<^verbatim>\<open>Check\<close> returns the one error \<^verbatim>\<open>Failed to load config file\<close> followed by the
  cause, nothing has been printed and the only file read is the configuration file.
  The configuration cannot be loaded when the file cannot be read, when the JSON decoder
  rejects it or the value of \<^verbatim>\<open>paths\<close>, and when an entry of \<^verbatim>\<open>paths\<close> of any
  configuration has both an include and an exclude list. The cause reads
  \<^verbatim>\<open>Rule cannot contain both include and exclude\<close> when that entry is the first thing to
  fail, in whichever configuration it stands, and so whenever the decoder accepts every
  \<^verbatim>\<open>paths\<close> value and \<^verbatim>\<open>match.New\<close> every pattern.
\<close>

theorem config_errors_end_run_before_scan:
  assumes "filepath_Abs e dir = Inr root"
  shows "(\<forall>err. fst (loadConfigs e root w) = Inl err \<longrightarrow>
            Check e dir w =
              (Some (''Failed to load config file: '' @ err),
               w\<lparr>reads := reads w @ [filepath_Join root ConfigFileName]\<rparr>)) \<and>
         (\<forall>err. contents e (filepath_Join root ConfigFileName) = Inl err \<longrightarrow>
            fst (loadConfigs e root w) = Inl err) \<and>
         (\<forall>body err. contents e (filepath_Join root ConfigFileName) = Inr body \<and>
            rawConfigs e body = Inl err \<longrightarrow>
            fst (loadConfigs e root w) = Inl err) \<and>
         (\<forall>body raws raw rbody err. contents e (filepath_Join root ConfigFileName) = Inr body \<and>
            rawConfigs e body = Inr raws \<and> raw \<in> set raws \<and> rawPaths raw = Some rbody \<and>
            json_parsed e rbody = Inl err \<longrightarrow>
            (\<exists>err'. fst (loadConfigs e root w) = Inl err')) \<and>
         (\<forall>body raws raw rbody p r. contents e (filepath_Join root ConfigFileName) = Inr body \<and>
            rawConfigs e body = Inr raws \<and> raw \<in> set raws \<and> rawPaths raw = Some rbody \<and>
            json_parsed e rbody = Inr p \<and> r \<in> set p \<and> conflicting r \<longrightarrow>
            (\<exists>err. fst (loadConfigs e root w) = Inl err)) \<and>
         (\<forall>body earlier cfgs raw later rbody pre r post l.
            contents e (filepath_Join root ConfigFileName) = Inr body \<and>
            rawConfigs e body = Inr (earlier @ raw # later) \<and> toConfigs e earlier = Inr cfgs \<and>
            rawPaths raw = Some rbody \<and> json_parsed e rbody = Inr (pre @ r # post) \<and>
            unmarshalRules (New e) pre [] = Inr l \<and> conflicting r \<longrightarrow>
            fst (loadConfigs e root w) = Inl ''Rule cannot contain both include and exclude'') \<and>
         (\<forall>body raws. contents e (filepath_Join root ConfigFileName) = Inr body \<and>
            rawConfigs e body = Inr raws \<and> (\<forall>raw \<in> set raws. compiles e raw) \<and>
            (\<exists>raw \<in> set raws. conflicts e raw) \<longrightarrow>
            fst (loadConfigs e root w) = Inl ''Rule cannot contain both include and exclude'')"
proof (intro conjI allI impI)
  fix err assume "fst (loadConfigs e root w) = Inl err"
  with assms show "Check e dir w =
      (Some (''Failed to load config file: '' @ err),
       w\<lparr>reads := reads w @ [filepath_Join root ConfigFileName]\<rparr>)"
    by (rule Check_load_error)
next
  fix err assume "contents e (filepath_Join root ConfigFileName) = Inl err"
  then show "fst (loadConfigs e root w) = Inl err" by (simp add: loadConfigs_raw)
next
  fix body err
  assume "contents e (filepath_Join root ConfigFileName) = Inr body \<and> rawConfigs e body = Inl err"
  then show "fst (loadConfigs e root w) = Inl err" by (simp add: loadConfigs_raw)
next
  fix body raws raw rbody err
  assume a: "contents e (filepath_Join root ConfigFileName) = Inr body \<and>
            rawConfigs e body = Inr raws \<and> raw \<in> set raws \<and> rawPaths raw = Some rbody \<and>
            json_parsed e rbody = Inl err"
  then have "toConfig e raw = Inl err" by (simp add: toConfig_def UnmarshalJSON_def)
  with a toConfigs_fails[of raw raws e err] show "\<exists>err'. fst (loadConfigs e root w) = Inl err'"
    by (simp add: loadConfigs_raw)
next
  fix body raws raw rbody p r
  assume a: "contents e (filepath_Join root ConfigFileName) = Inr body \<and>
            rawConfigs e body = Inr raws \<and> raw \<in> set raws \<and> rawPaths raw = Some rbody \<and>
            json_parsed e rbody = Inr p \<and> r \<in> set p \<and> conflicting r"
  with unmarshalRules_conflict[of r p "New e" "[]"] obtain err where "toConfig e raw = Inl err"
    by (auto simp: toConfig_def UnmarshalJSON_def)
  with a toConfigs_fails[of raw raws e err] show "\<exists>err. fst (loadConfigs e root w) = Inl err"
    by (simp add: loadConfigs_raw)
next
  fix body earlier cfgs raw later rbody pre r post l
  assume a: "contents e (filepath_Join root ConfigFileName) = Inr body \<and>
            rawConfigs e body = Inr (earlier @ raw # later) \<and> toConfigs e earlier = Inr cfgs \<and>
            rawPaths raw = Some rbody \<and> json_parsed e rbody = Inr (pre @ r # post) \<and>
            unmarshalRules (New e) pre [] = Inr l \<and> conflicting r"
  with unmarshalRules_first_conflict[of "New e" pre "[]" l r post]
  have "toConfig e raw = Inl ''Rule cannot contain both include and exclude''"
    by (simp add: toConfig_def UnmarshalJSON_def)
  with a toConfigs_append_fail[of e earlier cfgs raw _ later]
  show "fst (loadConfigs e root w) = Inl ''Rule cannot contain both include and exclude''"
    by (simp add: loadConfigs_raw)
next
  fix body raws
  assume a: "contents e (filepath_Join root ConfigFileName) = Inr body \<and>
            rawConfigs e body = Inr raws \<and> (\<forall>raw \<in> set raws. compiles e raw) \<and>
            (\<exists>raw \<in> set raws. conflicts e raw)"
  then obtain raw where raw: "raw \<in> set raws" "conflicts e raw" by blast
  from toConfig_conflicts[OF raw(2)] obtain err0 where "toConfig e raw = Inl err0" by blast
  from toConfigs_fails[OF raw(1) this] obtain err where err: "toConfigs e raws = Inl err" by blast
  from a have "\<forall>raw \<in> set raws. compiles e raw" by simp
  from toConfigs_only_conflict[OF this err] err a
  show "fst (loadConfigs e root w) = Inl ''Rule cannot contain both include and exclude''"
    by (simp add: loadConfigs_raw)
qed

theorem config_errors_end_run_before_scan_witness:
  "filepath_Abs (exampleEnv File) ''/p'' = Inr ''/p'' \<and>
   Check ((exampleEnv File)\<lparr>contents := \<lambda>path. Inl (''open '' @ path @ '': no such file or directory'')\<rparr>)
       ''/p'' world0 =
     (Some ''Failed to load config file: open /p/license-checker.cfg: no such file or directory'',
      \<lparr>stdout = [], reads = [''/p/license-checker.cfg'']\<rparr>) \<and>
   Check ((exampleEnv File)\<lparr>json_parsed := \<lambda>body. Inr [\<lparr>Include = [''src/**''], Exclude = [''out/*'']\<rparr>]\<rparr>)
       ''/p'' world0 =
     (Some ''Failed to load config file: Rule cannot contain both include and exclude'',
      \<lparr>stdout = [], reads = [''/p/license-checker.cfg'']\<rparr>) \<and>
   rawConfigs (exampleEnv2\<lparr>json_parsed := \<lambda>body. Inr [\<lparr>Include = [''src/**''], Exclude = [''out/*'']\<rparr>]\<rparr>)
       ''[configs]'' =
     Inr [\<lparr>rawPaths = None, rawLicenses = [''MIT'']\<rparr>, \<lparr>rawPaths = Some ''paths'', rawLicenses = [''MIT'']\<rparr>] \<and>
   compiles (exampleEnv2\<lparr>json_parsed := \<lambda>body. Inr [\<lparr>Include = [''src/**''], Exclude = [''out/*'']\<rparr>]\<rparr>)
       \<lparr>rawPaths = Some ''paths'', rawLicenses = [''MIT'']\<rparr> \<and>
   conflicts (exampleEnv2\<lparr>json_parsed := \<lambda>body. Inr [\<lparr>Include = [''src/**''], Exclude = [''out/*'']\<rparr>]\<rparr>)
       \<lparr>rawPaths = Some ''paths'', rawLicenses = [''MIT'']\<rparr> \<and>
   Check (exampleEnv2\<lparr>json_parsed := \<lambda>body. Inr [\<lparr>Include = [''src/**''], Exclude = [''out/*'']\<rparr>]\<rparr>)
       ''/p'' world0 =
     (Some ''Failed to load config file: Rule cannot contain both include and exclude'',
      \<lparr>stdout = [], reads = [''/p/license-checker.cfg'']\<rparr>)"
proof -
  let ?missing = "(exampleEnv File)\<lparr>contents := \<lambda>path. Inl (''open '' @ path @ '': no such file or directory'')\<rparr>"
  let ?conflict = "(exampleEnv File)\<lparr>json_parsed := \<lambda>body. Inr [\<lparr>Include = [''src/**''], Exclude = [''out/*'']\<rparr>]\<rparr>"
  let ?second = "exampleEnv2\<lparr>json_parsed := \<lambda>body. Inr [\<lparr>Include = [''src/**''], Exclude = [''out/*'']\<rparr>]\<rparr>"
  let ?raw1 = "\<lparr>rawPaths = None, rawLicenses = [''MIT'']\<rparr>"
  let ?raw2 = "\<lparr>rawPaths = Some ''paths'', rawLicenses = [''MIT'']\<rparr>"
  let ?r = "\<lparr>Include = [''src/**''], Exclude = [''out/*'']\<rparr>"
  have h: "filepath_Abs (exampleEnv File) ''/p'' = Inr ''/p''" by (simp add: exampleEnv_def)
  have hm: "filepath_Abs ?missing ''/p'' = Inr ''/p''" by (simp add: exampleEnv_def)
  have hc: "filepath_Abs ?conflict ''/p'' = Inr ''/p''" by (simp add: exampleEnv_def)
  have hs: "filepath_Abs ?second ''/p'' = Inr ''/p''" by (simp add: exampleEnv2_def exampleEnv_def)
  note M = config_errors_end_run_before_scan[OF hm, of world0]
  note C = config_errors_end_run_before_scan[OF hc, of world0]
  note S = config_errors_end_run_before_scan[OF hs, of world0]
  have "contents ?missing (filepath_Join ''/p'' ConfigFileName) =
          Inl ''open /p/license-checker.cfg: no such file or directory''"
    by (simp add: filepath_Join_def ConfigFileName_def)
  from M[THEN conjunct2, THEN conjunct1, rule_format, OF this]
  have "fst (loadConfigs ?missing ''/p'' world0) = Inl ''open /p/license-checker.cfg: no such file or directory''" .
  from M[THEN conjunct1, rule_format, OF this]
  have m: "Check ?missing ''/p'' world0 =
     (Some ''Failed to load config file: open /p/license-checker.cfg: no such file or directory'',
      \<lparr>stdout = [], reads = [''/p/license-checker.cfg'']\<rparr>)"
    by (simp add: world0_def filepath_Join_def ConfigFileName_def)
  have "contents ?conflict (filepath_Join ''/p'' ConfigFileName) = Inr ''{config}'' \<and>
        rawConfigs ?conflict ''{config}'' = Inr ([] @ ?raw2 # []) \<and>
        toConfigs ?conflict [] = Inr [] \<and>
        rawPaths ?raw2 = Some ''paths'' \<and>
        json_parsed ?conflict ''paths'' = Inr ([] @ ?r # []) \<and>
        unmarshalRules (New ?conflict) [] [] = Inr [] \<and>
        conflicting ?r"
    by (simp add: exampleEnv_def filepath_Join_def ConfigFileName_def rawConfigs_def
        strings_HasPrefix_def strings_TrimLeft_def conflicting_def)
  from C[THEN conjunct2, THEN conjunct2, THEN conjunct2, THEN conjunct2, THEN conjunct2,
      THEN conjunct1, rule_format, OF this]
  have "fst (loadConfigs ?conflict ''/p'' world0) = Inl ''Rule cannot contain both include and exclude''" .
  from C[THEN conjunct1, rule_format, OF this]
  have c: "Check ?conflict ''/p'' world0 =
     (Some ''Failed to load config file: Rule cannot contain both include and exclude'',
      \<lparr>stdout = [], reads = [''/p/license-checker.cfg'']\<rparr>)"
    by (simp add: world0_def filepath_Join_def ConfigFileName_def)
  have rc: "rawConfigs ?second ''[configs]'' = Inr [?raw1, ?raw2]"
    by (simp add: exampleEnv2_def exampleEnv_def rawConfigs_def
        strings_HasPrefix_def strings_TrimLeft_def)
  have cp: "compiles ?second ?raw2"
    by (simp add: compiles_def exampleEnv2_def exampleEnv_def match_New_def)
  have cf: "conflicts ?second ?raw2"
    by (simp add: conflicts_def conflicting_def)
  have "contents ?second (filepath_Join ''/p'' ConfigFileName) = Inr ''[configs]'' \<and>
        rawConfigs ?second ''[configs]'' = Inr ([?raw1] @ ?raw2 # []) \<and>
        toConfigs ?second [?raw1] = Inr [openConfig] \<and>
        rawPaths ?raw2 = Some ''paths'' \<and>
        json_parsed ?second ''paths'' = Inr ([] @ ?r # []) \<and>
        unmarshalRules (New ?second) [] [] = Inr [] \<and>
        conflicting ?r"
    using rc
    by (simp add: exampleEnv2_def exampleEnv_def filepath_Join_def ConfigFileName_def
        toConfig_def openConfig_def conflicting_def)
  from S[THEN conjunct2, THEN conjunct2, THEN conjunct2, THEN conjunct2, THEN conjunct2,
      THEN conjunct1, rule_format, OF this]
  have l2: "fst (loadConfigs ?second ''/p'' world0) = Inl ''Rule cannot contain both include and exclude''" .
  have "contents ?second (filepath_Join ''/p'' ConfigFileName) = Inr ''[configs]'' \<and>
        rawConfigs ?second ''[configs]'' = Inr [?raw1, ?raw2] \<and>
        (\<forall>raw \<in> set [?raw1, ?raw2]. compiles ?second raw) \<and>
        (\<exists>raw \<in> set [?raw1, ?raw2]. conflicts ?second raw)"
    using rc cp cf
    by (simp add: exampleEnv2_def exampleEnv_def filepath_Join_def ConfigFileName_def compiles_def)
  from S[THEN conjunct2, THEN conjunct2, THEN conjunct2, THEN conjunct2, THEN conjunct2,
      THEN conjunct2, rule_format, OF this]
  have l2': "fst (loadConfigs ?second ''/p'' world0) = Inl ''Rule cannot contain both include and exclude''" .
  from S[THEN conjunct1, rule_format, OF l2']
  have s: "Check ?second ''/p'' world0 =
     (Some ''Failed to load config file: Rule cannot contain both include and exclude'',
      \<lparr>stdout = [], reads = [''/p/license-checker.cfg'']\<rparr>)"
    by (simp add: world0_def filepath_Join_def ConfigFileName_def)
  show ?thesis by (intro conjI h m c rc cp cf s)
qed

end
